theory Spec2Isabelle
  imports Main
begin

text \<open>
  A model of the connection controller of ts-websocket: \<open>WebSocketController\<close> with the
  \<open>LoggerService\<close> it logs to, on top of the ws server it owns. Node runs one listener
  at a time to completion, so the server is a state machine: each event (an upgrade, a
  frame, a \<open>close\<close> or \<open>error\<close> event of a socket, a call of the public operations)
  takes the state to the next one. The state holds the fields of the controller, what the
  ws library keeps for it, and the actions done so far.
\<close>

section \<open>JavaScript values\<close>

text \<open>
  The values \<open>JSON.parse\<close> can return. A number is kept as a string (its decimal
  representation); an array carries, beside its elements, the non-index properties
  that an assignment such as \<open>message.sender = user\<close> adds to it. Properties of an
  object are an association list in property order, without duplicate keys.
\<close>

datatype jsval =
    JNull
  | JBool bool
  | JNum string
  | JStr string
  | JArr "jsval list" "(string \<times> jsval) list"
  | JObj "(string \<times> jsval) list"

text \<open>
  An error object: the \<open>SyntaxError\<close> of \<open>JSON.parse\<close>, the \<open>TypeError\<close> of the
  runtime, or any other thrown value that is neither \<open>null\<close> nor \<open>undefined\<close>, kept with
  the text that its \<open>message\<close> interpolates to.
\<close>

datatype js_error = SyntaxError | TypeError | Error string

text \<open>
  What a hook or a handler can throw: JavaScript throws any value, also \<open>null\<close> and
  \<open>undefined\<close>, on which the read of \<open>message\<close> in a \<open>catch\<close> block throws a
  \<open>TypeError\<close> itself.
\<close>

datatype thrown = Thrown js_error | ThrownNull | ThrownUndefined

text \<open>
  \<open>Map.prototype.set\<close> and the property write \<open>o[k] = v\<close>: an existing key keeps
  its position, a new key goes last. \<open>Map.prototype.delete\<close> removes the key.
\<close>

fun assoc_set :: "('k \<times> 'v) list \<Rightarrow> 'k \<Rightarrow> 'v \<Rightarrow> ('k \<times> 'v) list" where
  "assoc_set [] k v = [(k, v)]"
| "assoc_set ((k', v') # ps) k v =
     (if k' = k then (k, v) # ps else (k', v') # assoc_set ps k v)"

definition assoc_delete :: "('k \<times> 'v) list \<Rightarrow> 'k \<Rightarrow> ('k \<times> 'v) list" where
  "assoc_delete ps k = filter (\<lambda>p. fst p \<noteq> k) ps"

text \<open>The property read \<open>v[k]\<close>; \<open>None\<close> is \<open>undefined\<close>.\<close>

fun get_prop :: "jsval \<Rightarrow> string \<Rightarrow> jsval option" where
  "get_prop (JObj ps) k = map_of ps k"
| "get_prop (JArr xs ps) k = map_of ps k"
| "get_prop _ k = None"

text \<open>
  \<open>message.sender = user\<close> in strict mode (module code): on an object or an array it
  writes the property, on \<open>null\<close> and on a primitive it throws a \<open>TypeError\<close>.
\<close>

fun set_sender :: "jsval \<Rightarrow> string \<Rightarrow> js_error + jsval" where
  "set_sender (JObj ps) user = Inr (JObj (assoc_set ps ''sender'' (JStr user)))"
| "set_sender (JArr xs ps) user = Inr (JArr xs (assoc_set ps ''sender'' (JStr user)))"
| "set_sender JNull user = Inl TypeError"
| "set_sender (JBool b) user = Inl TypeError"
| "set_sender (JNum n) user = Inl TypeError"
| "set_sender (JStr t) user = Inl TypeError"

text \<open>
  A hook or handler \<open>(message: IMessage<any>) => void\<close>. It receives the message
  object by reference: it either throws a value, or returns and leaves the object in the
  state given by its result.
\<close>

type_synonym hook = "jsval \<Rightarrow> thrown + jsval"

text \<open>
  What the controller takes from its runtime and from the injected
  \<open>IAuthService\<close>: \<open>JSON.parse\<close> (\<open>Inl\<close> when it throws), \<open>JSON.stringify\<close>, and
  \<open>authService.verifyToken\<close> (\<open>None\<close> is \<open>null\<close>).
\<close>

record runtime =
  JSON_parse :: "string \<Rightarrow> js_error + jsval"
  JSON_stringify :: "jsval \<Rightarrow> string"
  verifyToken :: "string \<Rightarrow> string option"

section \<open>The upgrade URL\<close>

text \<open>\<open>String.prototype.split\<close> with a separator of one character.\<close>

fun js_split :: "char \<Rightarrow> string \<Rightarrow> string list" where
  "js_split c [] = [[]]"
| "js_split c (x # xs) =
     (if x = c then [] # js_split c xs
      else (case js_split c xs of [] \<Rightarrow> [[x]] | p # ps \<Rightarrow> (x # p) # ps))"

definition hex_digit :: "char \<Rightarrow> nat option" where
  "hex_digit c =
     (let n = (of_char c :: nat) in
      if 48 \<le> n \<and> n \<le> 57 then Some (n - 48)
      else if 65 \<le> n \<and> n \<le> 70 then Some (n - 55)
      else if 97 \<le> n \<and> n \<le> 102 then Some (n - 87)
      else None)"

text \<open>
  Percent-decoding of a byte string. The UTF-8 decoding that follows it in
  \<open>URLSearchParams\<close> is not modelled: names and values are the decoded bytes.
\<close>

fun percent_decode :: "string \<Rightarrow> string" where
  "percent_decode (c # h # l # rest) =
     (if c = CHR ''%'' then
        (case (hex_digit h, hex_digit l) of
           (Some a, Some b) \<Rightarrow> char_of (16 * a + b) # percent_decode rest
         | _ \<Rightarrow> c # percent_decode (h # l # rest))
      else c # percent_decode (h # l # rest))"
| "percent_decode xs = xs"

definition plus_to_space :: "string \<Rightarrow> string" where
  "plus_to_space s = map (\<lambda>c. if c = CHR ''+'' then CHR '' '' else c) s"

definition parse_pair :: "string \<Rightarrow> string \<times> string" where
  "parse_pair s =
     (percent_decode (plus_to_space (takeWhile (\<lambda>c. c \<noteq> CHR ''='') s)),
      percent_decode (plus_to_space (drop 1 (dropWhile (\<lambda>c. c \<noteq> CHR ''='') s))))"

text \<open>
  \<open>new URLSearchParams(init)\<close> for a string or \<open>undefined\<close>: a leading \<open>?\<close> is
  dropped, the rest is split at \<open>&\<close>, empty pieces are skipped, each piece is split at
  its first \<open>=\<close>. \<open>get\<close> returns the value of the first pair with the name.
\<close>

definition URLSearchParams :: "string option \<Rightarrow> (string \<times> string) list" where
  "URLSearchParams init =
     (case init of
        None \<Rightarrow> []
      | Some q \<Rightarrow>
          map parse_pair
            (filter (\<lambda>p. p \<noteq> [])
               (js_split (CHR ''&'')
                  (case q of [] \<Rightarrow> [] | c # cs \<Rightarrow> if c = CHR ''?'' then cs else q))))"

definition params_get :: "(string \<times> string) list \<Rightarrow> string \<Rightarrow> string option" where
  "params_get params name = map_of params name"

definition extractToken :: "string option \<Rightarrow> string option" where
  "extractToken url =
     (case url of
        None \<Rightarrow> None
      | Some u \<Rightarrow>
          if u = [] then None
          else params_get
                 (URLSearchParams
                    (case js_split (CHR ''?'') u of a # q # rest \<Rightarrow> Some q | _ \<Rightarrow> None))
                 ''token'')"

text \<open>JavaScript truthiness of a \<open>string | null\<close>: \<open>null\<close> and \<open>""\<close> are falsy.\<close>

fun truthy :: "string option \<Rightarrow> bool" where
  "truthy None = False"
| "truthy (Some t) = (t \<noteq> [])"

section \<open>Connections, the server state and its observable actions\<close>

type_synonym ws = nat

text \<open>
  A server-side \<open>WebSocket\<close> of the ws library is created \<open>OPEN\<close> by the upgrade; the
  state \<open>CONNECTING\<close> belongs to client sockets only. \<open>outbox\<close> holds the frames that
  the calls of the controller wrote to the peer, oldest first.
\<close>

datatype readyState = OPEN | CLOSING | CLOSED

datatype frame = Text string | Close "nat option" "string option"

record socket =
  readyState :: readyState
  outbox :: "frame list"

datatype wss_state = RUNNING | WSS_CLOSING | WSS_CLOSED

datatype callee = OnMessage | BeforeSend | BroadcastMessage | AfterSend

datatype level = LOG | WARN | ERROR

text \<open>
  A console line: a fixed text, or one of the templates that interpolate
  \<open>error.message\<close> or \<open>message.sender\<close>, kept with the interpolated value.
\<close>

datatype line =
    Line string
  | ErrorParsing js_error
  | ErrorProcessing js_error
  | WebSocketError js_error
  | BroadcastedFrom "jsval option"

text \<open>
  The calls the controller makes, in order: \<open>ws.send\<close>, \<open>ws.close\<close>, \<open>wss.close\<close>,
  \<open>server.close\<close>, the invocation of a hook, of the handler or of
  \<open>broadcastMessage\<close>, and a line written to the console. \<open>Uncaught\<close> is an exception
  that leaves a listener: nothing in the repository catches it, and Node ends the process
  on it unless the application handles \<open>uncaughtException\<close>. The model goes on after
  it, so its runs include those of a server that survives.
\<close>

datatype action =
    Send ws string
  | CloseCall ws "nat option" "string option"
  | WssClose
  | HttpClose
  | Invoke callee jsval
  | Console level line
  | Uncaught js_error

text \<open>
  The fields of \<open>WebSocketController\<close> (\<open>clients\<close>, \<open>beforeSend\<close>, \<open>afterSend\<close>,
  \<open>onMessage\<close>), of its \<open>WebSocketServer\<close> (\<open>wss_state\<close>, \<open>wss_clients\<close>, the
  callbacks waiting for its \<open>close\<close> event) and of \<open>LoggerService\<close>
  (\<open>enableLogging\<close>), with the sockets, the listeners installed on them (each closure
  holds its \<open>user\<close>), the next fresh handle and the actions so far. The options passed
  through \<open>wsOptions\<close> are taken to leave the defaults of ws in place, so the server
  tracks its clients.
\<close>

record server =
  wss_state :: wss_state
  wss_clients :: "ws list"
  wss_close_cbs :: nat
  clients :: "(ws \<times> string) list"
  beforeSend :: "hook option"
  afterSend :: "hook option"
  onMessage :: "hook option"
  enableLogging :: bool
  sockets :: "ws \<Rightarrow> socket option"
  listeners :: "ws \<Rightarrow> string option"
  next_ws :: ws
  trace :: "action list"

subsection \<open>LoggerService\<close>

definition logger_error :: "line \<Rightarrow> server \<Rightarrow> server" where
  "logger_error message s = s\<lparr>trace := trace s @ [Console ERROR message]\<rparr>"

definition logger_warn :: "line \<Rightarrow> server \<Rightarrow> server" where
  "logger_warn message s =
     (if enableLogging s then s\<lparr>trace := trace s @ [Console WARN message]\<rparr> else s)"

definition logger_log :: "line \<Rightarrow> server \<Rightarrow> server" where
  "logger_log message s =
     (if enableLogging s then s\<lparr>trace := trace s @ [Console LOG message]\<rparr> else s)"

subsection \<open>The ws library: send and close on a server-side socket\<close>

text \<open>
  \<open>ws.send(data)\<close> writes the frame when the socket is \<open>OPEN\<close>; on a closing or
  closed socket the data is dropped (no callback is passed, so nothing is raised).
\<close>

definition ws_send :: "ws \<Rightarrow> string \<Rightarrow> server \<Rightarrow> server" where
  "ws_send ws data s =
     (case sockets s ws of
        None \<Rightarrow> s\<lparr>trace := trace s @ [Send ws data]\<rparr>
      | Some sk \<Rightarrow>
          if readyState sk = OPEN
          then s\<lparr>sockets := (sockets s)(ws \<mapsto> sk\<lparr>outbox := outbox sk @ [Text data]\<rparr>),
                 trace := trace s @ [Send ws data]\<rparr>
          else s\<lparr>trace := trace s @ [Send ws data]\<rparr>)"

text \<open>
  \<open>ws.close(code, reason)\<close>: an \<open>OPEN\<close> socket becomes \<open>CLOSING\<close> and the close frame
  is written; on a closing or closed socket the call writes nothing.
\<close>

definition ws_close :: "ws \<Rightarrow> nat option \<Rightarrow> string option \<Rightarrow> server \<Rightarrow> server" where
  "ws_close ws code reason s =
     (case sockets s ws of
        None \<Rightarrow> s\<lparr>trace := trace s @ [CloseCall ws code reason]\<rparr>
      | Some sk \<Rightarrow>
          if readyState sk = OPEN
          then s\<lparr>sockets := (sockets s)(ws \<mapsto>
                    \<lparr>readyState = CLOSING, outbox = outbox sk @ [Close code reason]\<rparr>),
                 trace := trace s @ [CloseCall ws code reason]\<rparr>
          else s\<lparr>trace := trace s @ [CloseCall ws code reason]\<rparr>)"

text \<open>\<open>client.readyState === WebSocket.OPEN\<close>.\<close>

definition is_open :: "server \<Rightarrow> ws \<Rightarrow> bool" where
  "is_open s ws = (case sockets s ws of None \<Rightarrow> False | Some sk \<Rightarrow> readyState sk = OPEN)"

text \<open>
  \<open>wss.close(cb)\<close>: the callback waits for the server's \<open>close\<close> event, and a running
  server starts closing. It closes no client.
\<close>

definition wss_close :: "server \<Rightarrow> server" where
  "wss_close s =
     s\<lparr>wss_state := (if wss_state s = RUNNING then WSS_CLOSING else wss_state s),
       wss_close_cbs := Suc (wss_close_cbs s),
       trace := trace s @ [WssClose]\<rparr>"

section \<open>WebSocketController\<close>

subsection \<open>Construction and hooks\<close>

record hooks =
  hooks_beforeSend :: "hook option"
  hooks_afterSend :: "hook option"

text \<open>The fields of \<open>IConfig\<close> that the controller and the logger read.\<close>

record config =
  config_hooks :: "hooks option"
  config_onMessage :: "hook option"
  config_enableLogging :: "bool option"

text \<open>
  The constructor: \<open>this.config.hooks?.beforeSend\<close>, \<open>this.config.hooks?.afterSend\<close>,
  \<open>this.config.onMessage\<close>; \<open>LoggerService\<close> takes \<open>enableLogging ?? true\<close>. No
  client, no socket, nothing done yet.
\<close>

definition constructor :: "config \<Rightarrow> server" where
  "constructor cfg =
     \<lparr>wss_state = RUNNING,
      wss_clients = [],
      wss_close_cbs = 0,
      clients = [],
      beforeSend = (case config_hooks cfg of None \<Rightarrow> None | Some h \<Rightarrow> hooks_beforeSend h),
      afterSend = (case config_hooks cfg of None \<Rightarrow> None | Some h \<Rightarrow> hooks_afterSend h),
      onMessage = config_onMessage cfg,
      enableLogging = (case config_enableLogging cfg of None \<Rightarrow> True | Some b \<Rightarrow> b),
      sockets = (\<lambda>ws. None),
      listeners = (\<lambda>ws. None),
      next_ws = 0,
      trace = []\<rparr>"

definition setLifecycleHooks :: "hook option \<Rightarrow> hook option \<Rightarrow> server \<Rightarrow> server" where
  "setLifecycleHooks pre post s = s\<lparr>beforeSend := pre, afterSend := post\<rparr>"

subsection \<open>Broadcast\<close>

text \<open>
  \<open>this.wss.clients.forEach\<close>: the set of the ws server in insertion order; each client
  that is \<open>OPEN\<close> is sent \<open>JSON.stringify(message)\<close>. Then one line is logged.
\<close>

definition broadcastMessage :: "runtime \<Rightarrow> jsval \<Rightarrow> server \<Rightarrow> server" where
  "broadcastMessage rt message s =
     logger_log (BroadcastedFrom (get_prop message ''sender''))
       (foldl
          (\<lambda>s client. if is_open s client then ws_send client (JSON_stringify rt message) s else s)
          (s\<lparr>trace := trace s @ [Invoke BroadcastMessage message]\<rparr>)
          (wss_clients s))"

subsection \<open>The message listener\<close>

text \<open>The first \<open>try\<close> block: \<open>JSON.parse(data)\<close>, then \<open>message.sender = user\<close>.\<close>

definition decode :: "runtime \<Rightarrow> string \<Rightarrow> string \<Rightarrow> js_error + jsval" where
  "decode rt user data =
     (case JSON_parse rt data of Inl e \<Rightarrow> Inl e | Inr message \<Rightarrow> set_sender message user)"

text \<open>A call of a hook or of the handler: its result, and the call recorded.\<close>

definition invoke :: "callee \<Rightarrow> hook \<Rightarrow> jsval \<Rightarrow> server \<Rightarrow> (thrown + jsval) \<times> server" where
  "invoke c h message s = (h message, s\<lparr>trace := trace s @ [Invoke c message]\<rparr>)"

text \<open>
  The body of the second \<open>try\<close> block: the state it reaches, and the exception that
  left it, if any.
\<close>

definition dispatch :: "runtime \<Rightarrow> jsval \<Rightarrow> server \<Rightarrow> thrown option \<times> server" where
  "dispatch rt message s =
     (case onMessage s of
        Some h \<Rightarrow>
          (case invoke OnMessage h message s of
             (Inl e, s1) \<Rightarrow> (Some e, s1)
           | (Inr m1, s1) \<Rightarrow> (None, s1))
      | None \<Rightarrow>
          (case (case beforeSend s of
                   None \<Rightarrow> (Inr message, s)
                 | Some h \<Rightarrow> invoke BeforeSend h message s) of
             (Inl e, s1) \<Rightarrow> (Some e, s1)
           | (Inr m1, s1) \<Rightarrow>
               (let s2 = broadcastMessage rt m1 s1 in
                case afterSend s2 of
                  None \<Rightarrow> (None, s2)
                | Some h \<Rightarrow>
                    (case invoke AfterSend h m1 s2 of
                       (Inl e, s3) \<Rightarrow> (Some e, s3)
                     | (Inr m2, s3) \<Rightarrow> (None, s3)))))"

definition error_payload :: "runtime \<Rightarrow> string \<Rightarrow> string" where
  "error_payload rt text = JSON_stringify rt (JObj [(''error'', JStr text)])"

text \<open>
  The second \<open>catch\<close> block. Its first statement interpolates
  \<open>(error as Error).message\<close>: for a thrown \<open>null\<close> or \<open>undefined\<close> that read throws a
  \<open>TypeError\<close> before anything is logged or sent, and the \<open>TypeError\<close> leaves the
  listener.
\<close>

definition catch_processing :: "runtime \<Rightarrow> ws \<Rightarrow> thrown \<Rightarrow> server \<Rightarrow> server" where
  "catch_processing rt ws error s =
     (case error of
        Thrown e \<Rightarrow>
          ws_send ws (error_payload rt ''Internal server error'')
            (logger_error (ErrorProcessing e) s)
      | ThrownNull \<Rightarrow> s\<lparr>trace := trace s @ [Uncaught TypeError]\<rparr>
      | ThrownUndefined \<Rightarrow> s\<lparr>trace := trace s @ [Uncaught TypeError]\<rparr>)"

text \<open>
  \<open>ws.on('message', ...)\<close> for the connection \<open>ws\<close> bound to \<open>user\<close>. What the first
  \<open>try\<close> block throws is the \<open>SyntaxError\<close> of \<open>JSON.parse\<close> or the \<open>TypeError\<close> of
  the assignment, so the first \<open>catch\<close> block can read its \<open>message\<close>.
\<close>

definition on_message :: "runtime \<Rightarrow> ws \<Rightarrow> string \<Rightarrow> string \<Rightarrow> server \<Rightarrow> server" where
  "on_message rt ws user data s =
     (case decode rt user data of
        Inl e \<Rightarrow>
          ws_close ws None None
            (ws_send ws (error_payload rt ''Invalid JSON format'')
               (logger_error (ErrorParsing e) s))
      | Inr message \<Rightarrow>
          (case dispatch rt message s of
             (Some error, s1) \<Rightarrow> catch_processing rt ws error s1
           | (None, s1) \<Rightarrow> s1))"

text \<open>\<open>ws.on('close', ...)\<close> and \<open>ws.on('error', ...)\<close>.\<close>

definition on_close :: "ws \<Rightarrow> string \<Rightarrow> server \<Rightarrow> server" where
  "on_close ws user s =
     logger_log (Line (''User disconnected: '' @ user))
       (s\<lparr>clients := assoc_delete (clients s) ws\<rparr>)"

definition on_error :: "js_error \<Rightarrow> server \<Rightarrow> server" where
  "on_error e s = logger_error (WebSocketError e) s"

subsection \<open>The upgrade\<close>

definition onConnection :: "runtime \<Rightarrow> ws \<Rightarrow> string option \<Rightarrow> server \<Rightarrow> server" where
  "onConnection rt ws url s =
     (let token = extractToken url;
          username = (case token of
                        None \<Rightarrow> None
                      | Some t \<Rightarrow> if t \<noteq> [] then verifyToken rt t else None)
      in if truthy token \<and> \<not> truthy username then
           logger_warn (Line ''WebSocket connection closed due to failed authentication.'')
             (ws_close ws (Some 1008) (Some ''Authentication Failed'')
                (ws_send ws (error_payload rt ''Authentication Failed'') s))
         else
           (let user = (case username of
                          None \<Rightarrow> ''Anonymous''
                        | Some u \<Rightarrow> if u \<noteq> [] then u else ''Anonymous'')
            in (logger_log (Line (''User connected: '' @ user))
                  (s\<lparr>clients := assoc_set (clients s) ws user\<rparr>))
               \<lparr>listeners := (listeners s)(ws \<mapsto> user)\<rparr>))"

text \<open>
  \<open>handleUpgrade\<close> for a request that passes the handshake of the ws library. A server
  that is no longer running aborts the handshake (503) and creates no socket; a running
  one creates the socket \<open>OPEN\<close>, tracks it and emits \<open>connection\<close>.
\<close>

definition handleUpgrade :: "runtime \<Rightarrow> string option \<Rightarrow> server \<Rightarrow> server" where
  "handleUpgrade rt url s =
     (if wss_state s \<noteq> RUNNING then s
      else onConnection rt (next_ws s) url
             (s\<lparr>wss_clients := wss_clients s @ [next_ws s],
                sockets := (sockets s)(next_ws s \<mapsto> \<lparr>readyState = OPEN, outbox = []\<rparr>),
                next_ws := Suc (next_ws s)\<rparr>))"

subsection \<open>Shutdown\<close>

text \<open>
  \<open>close()\<close>: \<open>this.clients.forEach\<close> closes every registered connection with 1001,
  then \<open>this.wss.close\<close>. \<open>WebSocketManager.stop\<close> calls it and closes the HTTP server
  (whose callback, run when the HTTP connections have ended, is outside this model).
\<close>

definition close :: "server \<Rightarrow> server" where
  "close s =
     wss_close
       (foldl (\<lambda>s entry. ws_close (fst entry) (Some 1001) (Some ''Server shutting down'') s)
          s (clients s))"

definition stop :: "server \<Rightarrow> server" where
  "stop s = (let s1 = close s in s1\<lparr>trace := trace s1 @ [HttpClose]\<rparr>)"

section \<open>Events\<close>

text \<open>
  What reaches the server: an upgrade request with its \<open>request.url\<close>, a frame from a
  peer, a peer starting the closing handshake, the \<open>close\<close> and \<open>error\<close> events of a
  socket, and the two public operations.
\<close>

datatype event =
    Upgrade "string option"
  | Message ws string
  | PeerClosing ws
  | Closed ws
  | Errored ws js_error
  | SetLifecycleHooks "hook option" "hook option"
  | Stop

text \<open>
  The \<open>close\<close> event of a socket: the ws server forgets the socket, and the listener of
  an accepted connection runs. A socket emits it once.
\<close>

definition emit_close :: "ws \<Rightarrow> server \<Rightarrow> server" where
  "emit_close ws s =
     (case sockets s ws of
        None \<Rightarrow> s
      | Some sk \<Rightarrow>
          if readyState sk = CLOSED then s
          else
            (let s1 = s\<lparr>sockets := (sockets s)(ws \<mapsto> sk\<lparr>readyState := CLOSED\<rparr>),
                        wss_clients := removeAll ws (wss_clients s)\<rparr>
             in case listeners s ws of
                  None \<Rightarrow> s1
                | Some user \<Rightarrow> (on_close ws user s1)\<lparr>listeners := (listeners s)(ws := None)\<rparr>))"

text \<open>A peer's close frame, or an error, takes an \<open>OPEN\<close> socket to \<open>CLOSING\<close>.\<close>

definition start_closing :: "ws \<Rightarrow> server \<Rightarrow> server" where
  "start_closing ws s =
     (case sockets s ws of
        None \<Rightarrow> s
      | Some sk \<Rightarrow>
          if readyState sk = OPEN
          then s\<lparr>sockets := (sockets s)(ws \<mapsto> sk\<lparr>readyState := CLOSING\<rparr>)\<rparr>
          else s)"

definition emit_error :: "ws \<Rightarrow> js_error \<Rightarrow> server \<Rightarrow> server" where
  "emit_error ws e s =
     (case listeners s ws of
        None \<Rightarrow> start_closing ws s
      | Some user \<Rightarrow> on_error e (start_closing ws s))"

text \<open>
  A frame is delivered to the listener of an accepted connection until its socket is
  \<open>CLOSED\<close> (a socket that this side has started to close still receives).
\<close>

definition emit_message :: "runtime \<Rightarrow> ws \<Rightarrow> string \<Rightarrow> server \<Rightarrow> server" where
  "emit_message rt ws data s =
     (case listeners s ws of
        None \<Rightarrow> s
      | Some user \<Rightarrow>
          (case sockets s ws of
             None \<Rightarrow> s
           | Some sk \<Rightarrow> if readyState sk = CLOSED then s else on_message rt ws user data s))"

text \<open>
  After each event: a ws server that is closing and has no client left emits its
  \<open>close\<close> event (scheduled with \<open>process.nextTick\<close>), which runs the callbacks of
  \<open>wss.close\<close>, each logging one warning.
\<close>

definition tick :: "server \<Rightarrow> server" where
  "tick s =
     (if wss_state s \<noteq> RUNNING \<and> wss_clients s = [] \<and> 0 < wss_close_cbs s
      then ((logger_warn (Line ''WebSocket server closed.'') ^^ wss_close_cbs s) s)
             \<lparr>wss_state := WSS_CLOSED, wss_close_cbs := 0\<rparr>
      else s)"

fun handle :: "runtime \<Rightarrow> event \<Rightarrow> server \<Rightarrow> server" where
  "handle rt (Upgrade url) s = handleUpgrade rt url s"
| "handle rt (Message ws data) s = emit_message rt ws data s"
| "handle rt (PeerClosing ws) s = start_closing ws s"
| "handle rt (Closed ws) s = emit_close ws s"
| "handle rt (Errored ws e) s = emit_error ws e s"
| "handle rt (SetLifecycleHooks pre post) s = setLifecycleHooks pre post s"
| "handle rt Stop s = stop s"

definition step :: "runtime \<Rightarrow> event \<Rightarrow> server \<Rightarrow> server" where
  "step rt ev s = tick (handle rt ev s)"

fun run :: "runtime \<Rightarrow> event list \<Rightarrow> server \<Rightarrow> server" where
  "run rt [] s = s"
| "run rt (ev # evs) s = run rt evs (step rt ev s)"

section \<open>AuthService\<close>

text \<open>
  \<open>AuthService\<close> signs and verifies with \<open>jsonwebtoken\<close>. A token string is
  represented by what it decodes to: \<open>Signed c g\<close> for three segments that carry the
  claims \<open>c\<close> and the signature \<open>g\<close>, \<open>Malformed\<close> for any other string. The HMAC is symbolic: \<open>HS256 k c\<close> is the signature of the claims
  \<open>c\<close> under the secret \<open>k\<close>, and no other secret or claims give the same one. The clock
  (\<open>Math.floor(Date.now() / 1000)\<close>, in seconds) is an argument of each call.
\<close>

record claims =
  claims_username :: "string option"
  claims_iat :: int
  claims_exp :: "int option"

datatype signature = HS256 string claims

datatype token = Malformed string | Signed claims signature

text \<open>
  The plain \<open>Error\<close> that \<open>jwt.sign\<close> throws, and the two classes that \<open>jwt.verify\<close>
  throws.
\<close>

datatype jwt_error = SignFailed | JsonWebTokenError | TokenExpiredError

text \<open>
  Modelled from the spec: \<open>jwt.sign\<close> of the package \<open>jsonwebtoken\<close>, a dependency
  that is not part of the repository; the details are those of its documentation.
  \<open>jwt.sign({ username }, secret, { expiresIn })\<close> throws without a secret, and when
  \<open>expiresIn\<close> is no time span; otherwise the claims get \<open>iat\<close>, the clock, and \<open>exp\<close>.
  The library's \<open>timespan(expiresIn, iat)\<close>, which reads strings such as \<open>1h\<close>, is a
  parameter: it returns \<open>exp\<close>, or nothing for a string it cannot read.
\<close>

definition jwt_sign ::
  "(string \<Rightarrow> int \<Rightarrow> int option) \<Rightarrow> string option \<Rightarrow> string \<Rightarrow> string \<Rightarrow> int \<Rightarrow>
   jwt_error + token" where
  "jwt_sign timespan username secret expiresIn now =
     (if secret = [] then Inl SignFailed
      else
        (case timespan expiresIn now of
           None \<Rightarrow> Inl SignFailed
         | Some e \<Rightarrow>
             Inr (Signed
                    \<lparr>claims_username = username, claims_iat = now, claims_exp = Some e\<rparr>
                    (HS256 secret
                       \<lparr>claims_username = username, claims_iat = now, claims_exp = Some e\<rparr>))))"

text \<open>
  Modelled from the spec: \<open>jwt.verify\<close> of the package \<open>jsonwebtoken\<close>, a dependency
  that is not part of the repository; the details are those of its documentation.
  \<open>jwt.verify(token, secret)\<close> throws a \<open>JsonWebTokenError\<close> for a malformed token, a missing
  secret or a signature that is not the one of the claims under the secret; a
  \<open>TokenExpiredError\<close> once the clock has reached \<open>exp\<close>; otherwise the claims.
\<close>

definition jwt_verify :: "token \<Rightarrow> string \<Rightarrow> int \<Rightarrow> jwt_error + claims" where
  "jwt_verify tok secret now =
     (case tok of
        Malformed x \<Rightarrow> Inl JsonWebTokenError
      | Signed c g \<Rightarrow>
          if secret = [] then Inl JsonWebTokenError
          else if g \<noteq> HS256 secret c then Inl JsonWebTokenError
          else
            (case claims_exp c of
               None \<Rightarrow> Inr c
             | Some e \<Rightarrow> if e \<le> now then Inl TokenExpiredError else Inr c))"

text \<open>
  The service holds \<open>config.secretKey\<close> and \<open>config.tokenExpiry\<close>; \<open>Config\<close> puts its
  defaults where an option is missing or empty (\<open>options.secretKey || ...\<close>).
\<close>

record auth_service =
  secretKey :: string
  tokenExpiry :: string

definition or_default :: "string option \<Rightarrow> string \<Rightarrow> string" where
  "or_default opt d = (case opt of None \<Rightarrow> d | Some x \<Rightarrow> if x = [] then d else x)"

definition AuthService :: "string option \<Rightarrow> string option \<Rightarrow> auth_service" where
  "AuthService options_secretKey options_tokenExpiry =
     \<lparr>secretKey = or_default options_secretKey ''default_secret_key'',
      tokenExpiry = or_default options_tokenExpiry ''1h''\<rparr>"

text \<open>
  \<open>generateToken\<close> lets the exception of \<open>jwt.sign\<close> through. \<open>verifyToken\<close> catches
  whatever \<open>jwt.verify\<close> throws and returns \<open>null\<close>; otherwise it returns
  \<open>decoded.username\<close>, which is \<open>undefined\<close> when the verified claims have no user name.
  Neither method reads or writes any state but the two fields of the service, which only
  the constructor assigns.
\<close>

datatype verified = Username string | ReturnedNull | ReturnedUndefined

definition AuthService_generateToken ::
  "(string \<Rightarrow> int \<Rightarrow> int option) \<Rightarrow> auth_service \<Rightarrow> string \<Rightarrow> int \<Rightarrow> jwt_error + token" where
  "AuthService_generateToken timespan svc username now =
     jwt_sign timespan (Some username) (secretKey svc) (tokenExpiry svc) now"

definition AuthService_verifyToken :: "auth_service \<Rightarrow> token \<Rightarrow> int \<Rightarrow> verified" where
  "AuthService_verifyToken svc tok now =
     (case jwt_verify tok (secretKey svc) now of
        Inl err \<Rightarrow> ReturnedNull
      | Inr decoded \<Rightarrow>
          (case claims_username decoded of
             None \<Rightarrow> ReturnedUndefined
           | Some username \<Rightarrow> Username username))"

section \<open>A concrete runtime\<close>

text \<open>
  The controller above is parametric in \<open>JSON.parse\<close>, \<open>JSON.stringify\<close> and the
  authentication service. To run it on concrete frames, this section gives a parser and
  a printer for JSON texts. They follow the JSON grammar; a number is kept as it is
  written, a four-digit escape is turned into the UTF-8 bytes of its code unit, and keys
  that are array indices are not moved to the front. On texts whose numbers are written
  the way JavaScript prints them and that use neither escapes of surrogates nor index
  keys, they agree with the JavaScript functions.
\<close>

definition is_ws :: "char \<Rightarrow> bool" where
  "is_ws c = (c = CHR '' '' \<or> c = CHR 0x09 \<or> c = CHR 0x0A \<or> c = CHR 0x0D)"

definition skip_ws :: "string \<Rightarrow> string" where
  "skip_ws s = dropWhile is_ws s"

definition is_digit :: "char \<Rightarrow> bool" where
  "is_digit c = (48 \<le> (of_char c :: nat) \<and> (of_char c :: nat) \<le> 57)"

definition utf8 :: "nat \<Rightarrow> string" where
  "utf8 n =
     (if n < 128 then [char_of n]
      else if n < 2048 then [char_of (192 + n div 64), char_of (128 + n mod 64)]
      else [char_of (224 + n div 4096), char_of (128 + (n div 64) mod 64),
            char_of (128 + n mod 64)])"

definition unescape :: "char \<Rightarrow> char option" where
  "unescape e =
     (if e = CHR 0x22 \<or> e = CHR 0x5C \<or> e = CHR ''/'' then Some e
      else if e = CHR ''b'' then Some (CHR 0x08)
      else if e = CHR ''f'' then Some (CHR 0x0C)
      else if e = CHR ''n'' then Some (CHR 0x0A)
      else if e = CHR ''r'' then Some (CHR 0x0D)
      else if e = CHR ''t'' then Some (CHR 0x09)
      else None)"

definition hex4 :: "char \<Rightarrow> char \<Rightarrow> char \<Rightarrow> char \<Rightarrow> nat option" where
  "hex4 a b c d =
     (case (hex_digit a, hex_digit b, hex_digit c, hex_digit d) of
        (Some x, Some y, Some z, Some w) \<Rightarrow> Some (4096 * x + 256 * y + 16 * z + w)
      | _ \<Rightarrow> None)"

text \<open>The characters of a string after its opening quote, up to the closing one.\<close>

fun parse_chars :: "string \<Rightarrow> string \<Rightarrow> (string \<times> string) option" where
  "parse_chars acc [] = None"
| "parse_chars acc (c # cs) =
     (if c = CHR 0x22 then Some (rev acc, cs)
      else if c = CHR 0x5C then
        (case cs of
           [] \<Rightarrow> None
         | e # r \<Rightarrow>
             (case unescape e of
                Some ch \<Rightarrow> parse_chars (ch # acc) r
              | None \<Rightarrow>
                  if e = CHR ''u'' then
                    (case r of
                       a # b # x # d # r' \<Rightarrow>
                         (case hex4 a b x d of
                            Some n \<Rightarrow> parse_chars (rev (utf8 n) @ acc) r'
                          | None \<Rightarrow> None)
                     | _ \<Rightarrow> None)
                  else None))
      else if (of_char c :: nat) < 32 then None
      else parse_chars (c # acc) cs)"

text \<open>
  A number: an optional minus, an integer part without a leading zero, an optional
  fraction, an optional exponent. The result is the text of the number and the rest.
\<close>

definition parse_digits :: "string \<Rightarrow> (string \<times> string) option" where
  "parse_digits s =
     (if takeWhile is_digit s = [] then None
      else Some (takeWhile is_digit s, dropWhile is_digit s))"

definition parse_exponent :: "string \<Rightarrow> (string \<times> string) option" where
  "parse_exponent s =
     (case s of
        [] \<Rightarrow> Some ([], s)
      | e # r \<Rightarrow>
          if e = CHR ''e'' \<or> e = CHR ''E'' then
            (case r of
               [] \<Rightarrow> None
             | g # r' \<Rightarrow>
                 if g = CHR ''+'' \<or> g = CHR ''-'' then
                   (case parse_digits r' of
                      None \<Rightarrow> None
                    | Some (ds, rest) \<Rightarrow> Some (e # g # ds, rest))
                 else
                   (case parse_digits r of
                      None \<Rightarrow> None
                    | Some (ds, rest) \<Rightarrow> Some (e # ds, rest)))
          else Some ([], s))"

definition parse_fraction :: "string \<Rightarrow> (string \<times> string) option" where
  "parse_fraction s =
     (case s of
        [] \<Rightarrow> Some ([], s)
      | p # r \<Rightarrow>
          if p = CHR ''.'' then
            (case parse_digits r of
               None \<Rightarrow> None
             | Some (ds, rest) \<Rightarrow> Some (p # ds, rest))
          else Some ([], s))"

definition parse_unsigned :: "string \<Rightarrow> (string \<times> string) option" where
  "parse_unsigned s =
     (case parse_digits s of
        None \<Rightarrow> None
      | Some (ds, r) \<Rightarrow>
          if 1 < length ds \<and> hd ds = CHR ''0'' then None
          else
            (case parse_fraction r of
               None \<Rightarrow> None
             | Some (fr, r') \<Rightarrow>
                 (case parse_exponent r' of
                    None \<Rightarrow> None
                  | Some (ex, r'') \<Rightarrow> Some (ds @ fr @ ex, r''))))"

definition parse_number :: "string \<Rightarrow> (string \<times> string) option" where
  "parse_number s =
     (case s of
        [] \<Rightarrow> None
      | c # r \<Rightarrow>
          if c = CHR ''-'' then
            (case parse_unsigned r of None \<Rightarrow> None | Some (n, rest) \<Rightarrow> Some (c # n, rest))
          else parse_unsigned s)"

definition parse_literal :: "string \<Rightarrow> (jsval \<times> string) option" where
  "parse_literal s =
     (if take 4 s = ''null'' then Some (JNull, drop 4 s)
      else if take 4 s = ''true'' then Some (JBool True, drop 4 s)
      else if take 5 s = ''false'' then Some (JBool False, drop 5 s)
      else (case parse_number s of None \<Rightarrow> None | Some (n, rest) \<Rightarrow> Some (JNum n, rest)))"

text \<open>
  Values, the elements of an array after its bracket, and the members of an object
  after its brace. The first argument bounds the number of calls; every call but the
  first follows a character that was read, so the length of the text is enough.
\<close>

fun parse_value :: "nat \<Rightarrow> string \<Rightarrow> (jsval \<times> string) option"
  and parse_elements :: "nat \<Rightarrow> jsval list \<Rightarrow> string \<Rightarrow> (jsval \<times> string) option"
  and parse_members :: "nat \<Rightarrow> (string \<times> jsval) list \<Rightarrow> string \<Rightarrow> (jsval \<times> string) option"
where
  "parse_value 0 s = None"
| "parse_value (Suc n) s =
     (case skip_ws s of
        [] \<Rightarrow> None
      | c # r \<Rightarrow>
          if c = CHR ''{'' then
            (case skip_ws r of
               [] \<Rightarrow> None
             | d # r' \<Rightarrow> if d = CHR ''}'' then Some (JObj [], r') else parse_members n [] (d # r'))
          else if c = CHR ''['' then
            (case skip_ws r of
               [] \<Rightarrow> None
             | d # r' \<Rightarrow> if d = CHR '']'' then Some (JArr [] [], r') else parse_elements n [] (d # r'))
          else if c = CHR 0x22 then
            (case parse_chars [] r of None \<Rightarrow> None | Some (t, rest) \<Rightarrow> Some (JStr t, rest))
          else parse_literal (c # r))"
| "parse_elements 0 acc s = None"
| "parse_elements (Suc n) acc s =
     (case parse_value n s of
        None \<Rightarrow> None
      | Some (v, r) \<Rightarrow>
          (case skip_ws r of
             [] \<Rightarrow> None
           | c # r' \<Rightarrow>
               if c = CHR '','' then parse_elements n (acc @ [v]) r'
               else if c = CHR '']'' then Some (JArr (acc @ [v]) [], r')
               else None))"
| "parse_members 0 acc s = None"
| "parse_members (Suc n) acc s =
     (case skip_ws s of
        [] \<Rightarrow> None
      | q # r \<Rightarrow>
          if q = CHR 0x22 then
            (case parse_chars [] r of
               None \<Rightarrow> None
             | Some (k, r1) \<Rightarrow>
                 (case skip_ws r1 of
                    [] \<Rightarrow> None
                  | c # r2 \<Rightarrow>
                      if c = CHR '':'' then
                        (case parse_value n r2 of
                           None \<Rightarrow> None
                         | Some (v, r3) \<Rightarrow>
                             (case skip_ws r3 of
                                [] \<Rightarrow> None
                              | d # r4 \<Rightarrow>
                                  if d = CHR '','' then parse_members n (assoc_set acc k v) r4
                                  else if d = CHR ''}'' then Some (JObj (assoc_set acc k v), r4)
                                  else None))
                      else None))
          else None)"

definition json_parse :: "string \<Rightarrow> js_error + jsval" where
  "json_parse data =
     (case parse_value (Suc (length data)) data of
        None \<Rightarrow> Inl SyntaxError
      | Some (v, rest) \<Rightarrow> if skip_ws rest = [] then Inr v else Inl SyntaxError)"

definition hex_char :: "nat \<Rightarrow> char" where
  "hex_char n = (if n < 10 then char_of (48 + n) else char_of (87 + n))"

definition escape_char :: "char \<Rightarrow> string" where
  "escape_char c =
     (if c = CHR 0x22 then [CHR 0x5C, CHR 0x22]
      else if c = CHR 0x5C then [CHR 0x5C, CHR 0x5C]
      else if c = CHR 0x08 then [CHR 0x5C, CHR ''b'']
      else if c = CHR 0x0C then [CHR 0x5C, CHR ''f'']
      else if c = CHR 0x0A then [CHR 0x5C, CHR ''n'']
      else if c = CHR 0x0D then [CHR 0x5C, CHR ''r'']
      else if c = CHR 0x09 then [CHR 0x5C, CHR ''t'']
      else if (of_char c :: nat) < 32 then
        [CHR 0x5C, CHR ''u'', CHR ''0'', CHR ''0'',
         hex_char ((of_char c :: nat) div 16), hex_char ((of_char c :: nat) mod 16)]
      else [c])"

definition quote :: "string \<Rightarrow> string" where
  "quote t = CHR 0x22 # concat (map escape_char t) @ [CHR 0x22]"

fun join :: "string list \<Rightarrow> string" where
  "join [] = []"
| "join [x] = x"
| "join (x # y # ys) = x @ CHR '','' # join (y # ys)"

fun json_stringify :: "jsval \<Rightarrow> string" where
  "json_stringify JNull = ''null''"
| "json_stringify (JBool b) = (if b then ''true'' else ''false'')"
| "json_stringify (JNum n) = n"
| "json_stringify (JStr t) = quote t"
| "json_stringify (JArr xs ps) = CHR ''['' # join (map json_stringify xs) @ '']''"
| "json_stringify (JObj ps) =
     CHR ''{'' # join (map (\<lambda>p. quote (fst p) @ CHR '':'' # json_stringify (snd p)) ps) @ ''}''"

text \<open>
  An authentication service that has issued the tokens of a table: \<open>verifyToken\<close>
  returns the identity a token was issued for, and \<open>null\<close> for any other string.
\<close>

definition table_runtime :: "(string \<times> string) list \<Rightarrow> runtime" where
  "table_runtime issued =
     \<lparr>JSON_parse = json_parse, JSON_stringify = json_stringify, verifyToken = map_of issued\<rparr>"

section \<open>A concrete run\<close>

text \<open>
  The run used to evaluate the theorems below: the authentication service has issued
  one token, for \<open>alice\<close>; \<open>alice\<close> connects with her token (handle 0) and a guest
  without any (handle 1).
\<close>

definition demo_runtime :: runtime where
  "demo_runtime = table_runtime [(''t0k3n'', ''alice'')]"

definition plain_config :: config where
  "plain_config = \<lparr>config_hooks = None, config_onMessage = None, config_enableLogging = None\<rparr>"

definition demo_events :: "event list" where
  "demo_events = [Upgrade (Some ''/?token=t0k3n''), Upgrade (Some ''/'')]"

definition demo_run :: "config \<Rightarrow> server" where
  "demo_run cfg = run demo_runtime demo_events (constructor cfg)"

definition alice_and_guest :: server where
  "alice_and_guest = demo_run plain_config"

text \<open>A handler that returns, and a hook that throws.\<close>

definition quiet_handler :: hook where
  "quiet_handler message = Inr message"

definition failing_hook :: hook where
  "failing_hook message = Inl (Thrown (Error ''boom''))"

definition with_handler :: server where
  "with_handler = demo_run (plain_config\<lparr>config_onMessage := Some quiet_handler\<rparr>)"

definition with_failing_hook :: server where
  "with_failing_hook =
     demo_run (plain_config\<lparr>config_hooks :=
       Some \<lparr>hooks_beforeSend = Some failing_hook, hooks_afterSend = None\<rparr>\<rparr>)"

text \<open>Three guests, and nothing configured.\<close>

definition three_guests :: server where
  "three_guests =
     run demo_runtime [Upgrade None, Upgrade (Some ''/''), Upgrade (Some ''/chat?room=1'')]
       (constructor plain_config)"

text \<open>A hook that throws \<open>null\<close>, as in \<open>(message) => { throw null }\<close>.\<close>

definition null_hook :: hook where
  "null_hook message = Inl ThrownNull"

definition with_null_hook :: server where
  "with_null_hook =
     demo_run (plain_config\<lparr>config_hooks :=
       Some \<lparr>hooks_beforeSend = Some null_hook, hooks_afterSend = None\<rparr>\<rparr>)"

text \<open>
  A service made from a configuration that names only the secret, and a \<open>timespan\<close>
  that reads the default expiry: one hour.
\<close>

definition demo_service :: auth_service where
  "demo_service = AuthService (Some ''s3cr3t'') None"

definition demo_timespan :: "string \<Rightarrow> int \<Rightarrow> int option" where
  "demo_timespan expiresIn iat = (if expiresIn = ''1h'' then Some (iat + 3600) else None)"

section \<open>Observations\<close>

text \<open>
  The actions a step adds, the invocations among them (hooks, handler, broadcast) and
  the calls of \<open>ws.close\<close> among them.
\<close>

definition performed :: "server \<Rightarrow> server \<Rightarrow> action list" where
  "performed s s' = drop (length (trace s)) (trace s')"

fun is_invoke :: "action \<Rightarrow> bool" where
  "is_invoke (Invoke c m) = True"
| "is_invoke _ = False"

definition invocations :: "action list \<Rightarrow> action list" where
  "invocations acts = filter is_invoke acts"

fun is_close_call :: "action \<Rightarrow> bool" where
  "is_close_call (CloseCall w c r) = True"
| "is_close_call _ = False"

text \<open>
  The frames written to a peer so far, and those a step adds. \<open>push\<close> is a socket after
  one more frame, \<open>closing\<close> a socket after the close frame that starts its closing.
\<close>

definition outbox_of :: "server \<Rightarrow> ws \<Rightarrow> frame list" where
  "outbox_of s w = (case sockets s w of None \<Rightarrow> [] | Some sk \<Rightarrow> outbox sk)"

definition received :: "server \<Rightarrow> server \<Rightarrow> ws \<Rightarrow> frame list" where
  "received s s' w = drop (length (outbox_of s w)) (outbox_of s' w)"

definition push :: "frame \<Rightarrow> socket \<Rightarrow> socket" where
  "push f sk = sk\<lparr>outbox := outbox sk @ [f]\<rparr>"

definition closing :: "frame \<Rightarrow> socket \<Rightarrow> socket" where
  "closing f sk = \<lparr>readyState = CLOSING, outbox = outbox sk @ [f]\<rparr>"

text \<open>
  The \<open>readyState\<close> of each socket (\<open>None\<close> for a handle not yet allocated). A socket is
  live until it is \<open>CLOSED\<close>. An \<open>OPEN\<close> socket that starts closing becomes \<open>CLOSING\<close>;
  any other state stays.
\<close>

definition state_of :: "server \<Rightarrow> ws \<Rightarrow> readyState option" where
  "state_of s w = map_option readyState (sockets s w)"

definition live :: "server \<Rightarrow> ws \<Rightarrow> bool" where
  "live s w = (state_of s w = Some OPEN \<or> state_of s w = Some CLOSING)"

definition to_closing :: "readyState option \<Rightarrow> readyState option" where
  "to_closing st = (if st = Some OPEN then Some CLOSING else st)"

text \<open>The bodies of the two \<open>forEach\<close> iterations.\<close>

abbreviation (input) send_if_open :: "string \<Rightarrow> server \<Rightarrow> ws \<Rightarrow> server" where
  "send_if_open d \<equiv> (\<lambda>s client. if is_open s client then ws_send client d s else s)"

abbreviation (input) close_entry :: "server \<Rightarrow> ws \<times> string \<Rightarrow> server" where
  "close_entry \<equiv> (\<lambda>s entry. ws_close (fst entry) (Some 1001) (Some ''Server shutting down'') s)"

text \<open>
  The actions of a dispatch and the exception that leaves it, if any, read off the
  state it starts in. \<open>after_hook\<close> is what the default sequence does once the pre-hook
  has returned \<open>m1\<close>.
\<close>

definition after_hook :: "runtime \<Rightarrow> jsval \<Rightarrow> server \<Rightarrow> action list" where
  "after_hook rt m1 s =
     Invoke BroadcastMessage m1 #
     map (\<lambda>w. Send w (JSON_stringify rt m1)) (filter (is_open s) (wss_clients s)) @
     (if enableLogging s then [Console LOG (BroadcastedFrom (get_prop m1 ''sender''))] else []) @
     (case afterSend s of None \<Rightarrow> [] | Some g \<Rightarrow> [Invoke AfterSend m1])"

definition dispatch_actions :: "runtime \<Rightarrow> jsval \<Rightarrow> server \<Rightarrow> action list" where
  "dispatch_actions rt m s =
     (case onMessage s of
        Some h \<Rightarrow> [Invoke OnMessage m]
      | None \<Rightarrow>
          (case beforeSend s of
             None \<Rightarrow> after_hook rt m s
           | Some h \<Rightarrow>
               Invoke BeforeSend m #
               (case h m of Inl e \<Rightarrow> [] | Inr m1 \<Rightarrow> after_hook rt m1 s)))"

definition dispatch_raises :: "jsval \<Rightarrow> server \<Rightarrow> thrown option" where
  "dispatch_raises m s =
     (case onMessage s of
        Some h \<Rightarrow> (case h m of Inl e \<Rightarrow> Some e | Inr m1 \<Rightarrow> None)
      | None \<Rightarrow>
          (case (case beforeSend s of None \<Rightarrow> Inr m | Some h \<Rightarrow> h m) of
             Inl e \<Rightarrow> Some e
           | Inr m1 \<Rightarrow>
               (case afterSend s of
                  None \<Rightarrow> None
                | Some g \<Rightarrow> (case g m1 of Inl e \<Rightarrow> Some e | Inr m2 \<Rightarrow> None))))"

text \<open>The actions of the second \<open>catch\<close> block.\<close>

definition catch_actions :: "runtime \<Rightarrow> ws \<Rightarrow> thrown \<Rightarrow> action list" where
  "catch_actions rt ws error =
     (case error of
        Thrown e \<Rightarrow>
          [Console ERROR (ErrorProcessing e),
           Send ws (error_payload rt ''Internal server error'')]
      | ThrownNull \<Rightarrow> [Uncaught TypeError]
      | ThrownUndefined \<Rightarrow> [Uncaught TypeError])"

text \<open>Whether \<open>onConnection\<close> rejects a request, and the identity it binds otherwise.\<close>

definition rejected :: "runtime \<Rightarrow> string option \<Rightarrow> bool" where
  "rejected rt url =
     (case extractToken url of
        None \<Rightarrow> False
      | Some t \<Rightarrow> t \<noteq> [] \<and> \<not> truthy (verifyToken rt t))"

definition bound_identity :: "runtime \<Rightarrow> string option \<Rightarrow> string" where
  "bound_identity rt url =
     (case extractToken url of
        None \<Rightarrow> ''Anonymous''
      | Some t \<Rightarrow>
          if t = [] then ''Anonymous''
          else (case verifyToken rt t of None \<Rightarrow> ''Anonymous'' | Some u \<Rightarrow> u))"

text \<open>The values on which \<open>message.sender = user\<close> throws.\<close>

fun is_primitive :: "jsval \<Rightarrow> bool" where
  "is_primitive (JObj ps) = False"
| "is_primitive (JArr xs ps) = False"
| "is_primitive v = True"

text \<open>
  What holds in every state the server reaches: the ws server tracks, once each, exactly
  the sockets that are not \<open>CLOSED\<close>; handles below \<open>next_ws\<close> are the allocated ones;
  the registry has one entry per key and agrees with the listeners installed; every
  \<open>OPEN\<close> socket is registered.
\<close>

definition consistent :: "server \<Rightarrow> bool" where
  "consistent s =
     (distinct (wss_clients s) \<and>
      distinct (map fst (clients s)) \<and>
      (\<forall>w. (w \<in> set (wss_clients s)) = live s w) \<and>
      (\<forall>w. state_of s w \<noteq> None \<longrightarrow> w < next_ws s) \<and>
      (\<forall>w. listeners s w = map_of (clients s) w) \<and>
      (\<forall>w. listeners s w \<noteq> None \<longrightarrow> live s w) \<and>
      (\<forall>w. state_of s w = Some OPEN \<longrightarrow> listeners s w \<noteq> None))"

section \<open>The primitives, field by field\<close>

lemma logger_error_fields [simp]:
  "wss_state (logger_error m s) = wss_state s"
  "wss_clients (logger_error m s) = wss_clients s"
  "wss_close_cbs (logger_error m s) = wss_close_cbs s"
  "clients (logger_error m s) = clients s"
  "beforeSend (logger_error m s) = beforeSend s"
  "afterSend (logger_error m s) = afterSend s"
  "onMessage (logger_error m s) = onMessage s"
  "enableLogging (logger_error m s) = enableLogging s"
  "sockets (logger_error m s) = sockets s"
  "listeners (logger_error m s) = listeners s"
  "next_ws (logger_error m s) = next_ws s"
  "trace (logger_error m s) = trace s @ [Console ERROR m]"
  by (simp_all add: logger_error_def)

lemma logger_warn_fields [simp]:
  "wss_state (logger_warn m s) = wss_state s"
  "wss_clients (logger_warn m s) = wss_clients s"
  "wss_close_cbs (logger_warn m s) = wss_close_cbs s"
  "clients (logger_warn m s) = clients s"
  "beforeSend (logger_warn m s) = beforeSend s"
  "afterSend (logger_warn m s) = afterSend s"
  "onMessage (logger_warn m s) = onMessage s"
  "enableLogging (logger_warn m s) = enableLogging s"
  "sockets (logger_warn m s) = sockets s"
  "listeners (logger_warn m s) = listeners s"
  "next_ws (logger_warn m s) = next_ws s"
  "trace (logger_warn m s) = trace s @ (if enableLogging s then [Console WARN m] else [])"
  by (simp_all add: logger_warn_def)

lemma logger_log_fields [simp]:
  "wss_state (logger_log m s) = wss_state s"
  "wss_clients (logger_log m s) = wss_clients s"
  "wss_close_cbs (logger_log m s) = wss_close_cbs s"
  "clients (logger_log m s) = clients s"
  "beforeSend (logger_log m s) = beforeSend s"
  "afterSend (logger_log m s) = afterSend s"
  "onMessage (logger_log m s) = onMessage s"
  "enableLogging (logger_log m s) = enableLogging s"
  "sockets (logger_log m s) = sockets s"
  "listeners (logger_log m s) = listeners s"
  "next_ws (logger_log m s) = next_ws s"
  "trace (logger_log m s) = trace s @ (if enableLogging s then [Console LOG m] else [])"
  by (simp_all add: logger_log_def)

lemma ws_send_fields [simp]:
  "wss_state (ws_send w d s) = wss_state s"
  "wss_clients (ws_send w d s) = wss_clients s"
  "wss_close_cbs (ws_send w d s) = wss_close_cbs s"
  "clients (ws_send w d s) = clients s"
  "beforeSend (ws_send w d s) = beforeSend s"
  "afterSend (ws_send w d s) = afterSend s"
  "onMessage (ws_send w d s) = onMessage s"
  "enableLogging (ws_send w d s) = enableLogging s"
  "listeners (ws_send w d s) = listeners s"
  "next_ws (ws_send w d s) = next_ws s"
  "trace (ws_send w d s) = trace s @ [Send w d]"
  by (simp_all add: ws_send_def split: option.splits)

lemma ws_send_sockets [simp]:
  "sockets (ws_send w d s) w' =
     (if w' = w \<and> is_open s w then map_option (push (Text d)) (sockets s w) else sockets s w')"
  by (simp add: ws_send_def is_open_def push_def split: option.splits)

lemma ws_send_is_open [simp]: "is_open (ws_send w d s) w' = is_open s w'"
  by (simp add: is_open_def push_def split: option.splits)

lemma ws_close_fields [simp]:
  "wss_state (ws_close w c r s) = wss_state s"
  "wss_clients (ws_close w c r s) = wss_clients s"
  "wss_close_cbs (ws_close w c r s) = wss_close_cbs s"
  "clients (ws_close w c r s) = clients s"
  "beforeSend (ws_close w c r s) = beforeSend s"
  "afterSend (ws_close w c r s) = afterSend s"
  "onMessage (ws_close w c r s) = onMessage s"
  "enableLogging (ws_close w c r s) = enableLogging s"
  "listeners (ws_close w c r s) = listeners s"
  "next_ws (ws_close w c r s) = next_ws s"
  "trace (ws_close w c r s) = trace s @ [CloseCall w c r]"
  by (simp_all add: ws_close_def split: option.splits)

lemma ws_close_sockets [simp]:
  "sockets (ws_close w c r s) w' =
     (if w' = w \<and> is_open s w then map_option (closing (Close c r)) (sockets s w)
      else sockets s w')"
  by (simp add: ws_close_def is_open_def closing_def split: option.splits)

lemma ws_close_is_open [simp]: "is_open (ws_close w c r s) w' = (is_open s w' \<and> w' \<noteq> w)"
  by (auto simp add: is_open_def closing_def split: option.splits)

lemma is_open_trace [simp]: "is_open (s\<lparr>trace := t\<rparr>) w = is_open s w"
  by (simp add: is_open_def)

lemma is_open_logger [simp]:
  "is_open (logger_error m s) w = is_open s w"
  "is_open (logger_warn m s) w = is_open s w"
  "is_open (logger_log m s) w = is_open s w"
  by (simp_all add: is_open_def)

section \<open>The acceptor and the broadcast loop\<close>

lemma wss_close_fields [simp]:
  "wss_state (wss_close s) = (if wss_state s = RUNNING then WSS_CLOSING else wss_state s)"
  "wss_clients (wss_close s) = wss_clients s"
  "wss_close_cbs (wss_close s) = Suc (wss_close_cbs s)"
  "clients (wss_close s) = clients s"
  "beforeSend (wss_close s) = beforeSend s"
  "afterSend (wss_close s) = afterSend s"
  "onMessage (wss_close s) = onMessage s"
  "enableLogging (wss_close s) = enableLogging s"
  "sockets (wss_close s) = sockets s"
  "listeners (wss_close s) = listeners s"
  "next_ws (wss_close s) = next_ws s"
  "trace (wss_close s) = trace s @ [WssClose]"
  by (simp_all add: wss_close_def)

lemma is_open_wss_close [simp]: "is_open (wss_close s) w = is_open s w"
  by (simp add: is_open_def)

lemma is_open_same [simp]:
  "is_open (ws_send w d s) = is_open s"
  "is_open (s\<lparr>trace := t\<rparr>) = is_open s"
  "is_open (logger_error m s) = is_open s"
  "is_open (logger_warn m s) = is_open s"
  "is_open (logger_log m s) = is_open s"
  "is_open (wss_close s) = is_open s"
  by (rule ext, simp)+

subsection \<open>The loop of the broadcast\<close>

lemma fanout_fields [simp]:
  "wss_state (foldl (send_if_open d) s cs) = wss_state s"
  "wss_clients (foldl (send_if_open d) s cs) = wss_clients s"
  "wss_close_cbs (foldl (send_if_open d) s cs) = wss_close_cbs s"
  "clients (foldl (send_if_open d) s cs) = clients s"
  "beforeSend (foldl (send_if_open d) s cs) = beforeSend s"
  "afterSend (foldl (send_if_open d) s cs) = afterSend s"
  "onMessage (foldl (send_if_open d) s cs) = onMessage s"
  "enableLogging (foldl (send_if_open d) s cs) = enableLogging s"
  "listeners (foldl (send_if_open d) s cs) = listeners s"
  "next_ws (foldl (send_if_open d) s cs) = next_ws s"
  by (induction cs arbitrary: s; simp)+

lemma fanout_is_open [simp]: "is_open (foldl (send_if_open d) s cs) w = is_open s w"
  by (induction cs arbitrary: s) simp_all

lemma fanout_trace:
  "trace (foldl (send_if_open d) s cs) = trace s @ map (\<lambda>w. Send w d) (filter (is_open s) cs)"
  by (induction cs arbitrary: s) simp_all

lemma fanout_sockets_notin:
  "w \<notin> set cs \<Longrightarrow> sockets (foldl (send_if_open d) s cs) w = sockets s w"
  by (induction cs arbitrary: s) auto

lemma fanout_sockets:
  "distinct cs \<Longrightarrow>
   sockets (foldl (send_if_open d) s cs) w =
     (if w \<in> set cs \<and> is_open s w then map_option (push (Text d)) (sockets s w)
      else sockets s w)"
proof (induction cs arbitrary: s)
  case Nil
  then show ?case by simp
next
  case (Cons c cs)
  then show ?case by (auto simp: fanout_sockets_notin)
qed

lemma broadcastMessage_fields [simp]:
  "wss_state (broadcastMessage rt m s) = wss_state s"
  "wss_clients (broadcastMessage rt m s) = wss_clients s"
  "wss_close_cbs (broadcastMessage rt m s) = wss_close_cbs s"
  "clients (broadcastMessage rt m s) = clients s"
  "beforeSend (broadcastMessage rt m s) = beforeSend s"
  "afterSend (broadcastMessage rt m s) = afterSend s"
  "onMessage (broadcastMessage rt m s) = onMessage s"
  "enableLogging (broadcastMessage rt m s) = enableLogging s"
  "listeners (broadcastMessage rt m s) = listeners s"
  "next_ws (broadcastMessage rt m s) = next_ws s"
  by (simp_all add: broadcastMessage_def)

lemma broadcastMessage_is_open [simp]: "is_open (broadcastMessage rt m s) w = is_open s w"
  by (simp add: broadcastMessage_def)

lemma broadcastMessage_trace:
  "trace (broadcastMessage rt m s) =
     trace s @ Invoke BroadcastMessage m #
       map (\<lambda>w. Send w (JSON_stringify rt m)) (filter (is_open s) (wss_clients s)) @
       (if enableLogging s then [Console LOG (BroadcastedFrom (get_prop m ''sender''))] else [])"
  by (simp add: broadcastMessage_def fanout_trace)

lemma broadcastMessage_sockets:
  "distinct (wss_clients s) \<Longrightarrow>
   sockets (broadcastMessage rt m s) w =
     (if w \<in> set (wss_clients s) \<and> is_open s w
      then map_option (push (Text (JSON_stringify rt m))) (sockets s w)
      else sockets s w)"
  by (simp add: broadcastMessage_def fanout_sockets)

lemma readyState_push [simp]: "readyState (push f sk) = readyState sk"
  by (simp add: push_def)

lemma outbox_push [simp]: "outbox (push f sk) = outbox sk @ [f]"
  by (simp add: push_def)

lemma readyState_closing [simp]: "readyState (closing f sk) = CLOSING"
  by (simp add: closing_def)

lemma outbox_closing [simp]: "outbox (closing f sk) = outbox sk @ [f]"
  by (simp add: closing_def)

subsection \<open>The state of each socket\<close>

lemma is_open_state_of: "is_open s w = (state_of s w = Some OPEN)"
  by (simp add: is_open_def state_of_def split: option.splits)

lemma state_of_prims [simp]:
  "state_of (s\<lparr>trace := t\<rparr>) = state_of s"
  "state_of (logger_error m s) = state_of s"
  "state_of (logger_warn m s) = state_of s"
  "state_of (logger_log m s) = state_of s"
  "state_of (wss_close s) = state_of s"
  "state_of (ws_send w d s) = state_of s"
  by (rule ext, simp add: state_of_def option.map_comp comp_def split: option.splits)+

lemma state_of_ws_close [simp]:
  "state_of (ws_close w c r s) = (state_of s)(w := to_closing (state_of s w))"
  by (rule ext) (auto simp: state_of_def to_closing_def is_open_def split: option.splits)

lemma state_of_fanout [simp]: "state_of (foldl (send_if_open d) s cs) = state_of s"
  by (induction cs arbitrary: s) simp_all

lemma state_of_broadcastMessage [simp]: "state_of (broadcastMessage rt m s) = state_of s"
  by (simp add: broadcastMessage_def)

subsection \<open>Dispatch\<close>

lemma dispatch_fields [simp]:
  "wss_state (snd (dispatch rt m s)) = wss_state s"
  "wss_clients (snd (dispatch rt m s)) = wss_clients s"
  "wss_close_cbs (snd (dispatch rt m s)) = wss_close_cbs s"
  "clients (snd (dispatch rt m s)) = clients s"
  "beforeSend (snd (dispatch rt m s)) = beforeSend s"
  "afterSend (snd (dispatch rt m s)) = afterSend s"
  "onMessage (snd (dispatch rt m s)) = onMessage s"
  "enableLogging (snd (dispatch rt m s)) = enableLogging s"
  "listeners (snd (dispatch rt m s)) = listeners s"
  "next_ws (snd (dispatch rt m s)) = next_ws s"
  "state_of (snd (dispatch rt m s)) = state_of s"
  by (simp_all add: dispatch_def invoke_def Let_def split: option.splits sum.splits prod.splits)

lemma is_open_dispatch [simp]: "is_open (snd (dispatch rt m s)) = is_open s"
  by (rule ext) (simp add: is_open_state_of)

lemma dispatch_trace:
  "trace (snd (dispatch rt m s)) = trace s @ dispatch_actions rt m s"
  by (simp add: dispatch_def dispatch_actions_def after_hook_def invoke_def Let_def
      broadcastMessage_trace
      split: option.splits sum.splits prod.splits)

lemma fst_dispatch: "fst (dispatch rt m s) = dispatch_raises m s"
  by (simp add: dispatch_def dispatch_raises_def invoke_def Let_def
      split: option.splits sum.splits prod.splits)

subsection \<open>The listeners\<close>

lemma catch_processing_fields [simp]:
  "wss_state (catch_processing rt ws error s) = wss_state s"
  "wss_clients (catch_processing rt ws error s) = wss_clients s"
  "wss_close_cbs (catch_processing rt ws error s) = wss_close_cbs s"
  "clients (catch_processing rt ws error s) = clients s"
  "beforeSend (catch_processing rt ws error s) = beforeSend s"
  "afterSend (catch_processing rt ws error s) = afterSend s"
  "onMessage (catch_processing rt ws error s) = onMessage s"
  "enableLogging (catch_processing rt ws error s) = enableLogging s"
  "listeners (catch_processing rt ws error s) = listeners s"
  "next_ws (catch_processing rt ws error s) = next_ws s"
  "state_of (catch_processing rt ws error s) = state_of s"
  "trace (catch_processing rt ws error s) = trace s @ catch_actions rt ws error"
  by (simp_all add: catch_processing_def catch_actions_def split: thrown.splits)

lemma is_open_catch_processing [simp]: "is_open (catch_processing rt ws error s) = is_open s"
  by (rule ext) (simp add: is_open_state_of)

lemma on_message_alt:
  "on_message rt ws user data s =
     (case decode rt user data of
        Inl e \<Rightarrow>
          ws_close ws None None
            (ws_send ws (error_payload rt ''Invalid JSON format'')
               (logger_error (ErrorParsing e) s))
      | Inr m \<Rightarrow>
          (case fst (dispatch rt m s) of
             Some error \<Rightarrow> catch_processing rt ws error (snd (dispatch rt m s))
           | None \<Rightarrow> snd (dispatch rt m s)))"
  by (simp add: on_message_def split: sum.splits prod.splits option.splits)

lemma on_message_fields [simp]:
  "wss_state (on_message rt ws user data s) = wss_state s"
  "wss_clients (on_message rt ws user data s) = wss_clients s"
  "wss_close_cbs (on_message rt ws user data s) = wss_close_cbs s"
  "clients (on_message rt ws user data s) = clients s"
  "beforeSend (on_message rt ws user data s) = beforeSend s"
  "afterSend (on_message rt ws user data s) = afterSend s"
  "onMessage (on_message rt ws user data s) = onMessage s"
  "enableLogging (on_message rt ws user data s) = enableLogging s"
  "listeners (on_message rt ws user data s) = listeners s"
  "next_ws (on_message rt ws user data s) = next_ws s"
  by (simp_all add: on_message_alt split: sum.splits option.splits)

lemma state_of_on_message:
  "state_of (on_message rt ws user data s) =
     (case decode rt user data of
        Inl e \<Rightarrow> (state_of s)(ws := to_closing (state_of s ws))
      | Inr m \<Rightarrow> state_of s)"
  by (simp add: on_message_alt split: sum.splits option.splits)

lemma on_close_fields [simp]:
  "wss_state (on_close ws user s) = wss_state s"
  "wss_clients (on_close ws user s) = wss_clients s"
  "wss_close_cbs (on_close ws user s) = wss_close_cbs s"
  "clients (on_close ws user s) = assoc_delete (clients s) ws"
  "beforeSend (on_close ws user s) = beforeSend s"
  "afterSend (on_close ws user s) = afterSend s"
  "onMessage (on_close ws user s) = onMessage s"
  "enableLogging (on_close ws user s) = enableLogging s"
  "sockets (on_close ws user s) = sockets s"
  "listeners (on_close ws user s) = listeners s"
  "next_ws (on_close ws user s) = next_ws s"
  by (simp_all add: on_close_def)

lemma state_of_sockets_upd [simp]:
  "state_of (s\<lparr>sockets := (sockets s)(w \<mapsto> sk)\<rparr>) = (state_of s)(w \<mapsto> readyState sk)"
  by (rule ext) (simp add: state_of_def)

lemma state_of_other_upd [simp]:
  "state_of (s\<lparr>wss_clients := cs\<rparr>) = state_of s"
  "state_of (s\<lparr>clients := ps\<rparr>) = state_of s"
  "state_of (s\<lparr>listeners := ls\<rparr>) = state_of s"
  "state_of (s\<lparr>next_ws := n\<rparr>) = state_of s"
  "state_of (s\<lparr>wss_state := st\<rparr>) = state_of s"
  "state_of (s\<lparr>wss_close_cbs := k\<rparr>) = state_of s"
  "state_of (s\<lparr>beforeSend := b\<rparr>) = state_of s"
  "state_of (s\<lparr>afterSend := a\<rparr>) = state_of s"
  by (rule ext, simp add: state_of_def)+

lemma state_of_on_close [simp]: "state_of (on_close ws user s) = state_of s"
  by (simp add: on_close_def)

lemma start_closing_fields [simp]:
  "wss_state (start_closing w s) = wss_state s"
  "wss_clients (start_closing w s) = wss_clients s"
  "wss_close_cbs (start_closing w s) = wss_close_cbs s"
  "clients (start_closing w s) = clients s"
  "beforeSend (start_closing w s) = beforeSend s"
  "afterSend (start_closing w s) = afterSend s"
  "onMessage (start_closing w s) = onMessage s"
  "enableLogging (start_closing w s) = enableLogging s"
  "listeners (start_closing w s) = listeners s"
  "next_ws (start_closing w s) = next_ws s"
  "trace (start_closing w s) = trace s"
  by (simp_all add: start_closing_def split: option.splits)

lemma state_of_start_closing [simp]:
  "state_of (start_closing w s) = (state_of s)(w := to_closing (state_of s w))"
  by (rule ext) (auto simp: start_closing_def state_of_def to_closing_def split: option.splits)

lemma emit_error_fields [simp]:
  "wss_state (emit_error w e s) = wss_state s"
  "wss_clients (emit_error w e s) = wss_clients s"
  "wss_close_cbs (emit_error w e s) = wss_close_cbs s"
  "clients (emit_error w e s) = clients s"
  "beforeSend (emit_error w e s) = beforeSend s"
  "afterSend (emit_error w e s) = afterSend s"
  "onMessage (emit_error w e s) = onMessage s"
  "enableLogging (emit_error w e s) = enableLogging s"
  "listeners (emit_error w e s) = listeners s"
  "next_ws (emit_error w e s) = next_ws s"
  "state_of (emit_error w e s) = (state_of s)(w := to_closing (state_of s w))"
  by (simp_all add: emit_error_def on_error_def split: option.splits)

lemma emit_message_fields [simp]:
  "wss_state (emit_message rt w d s) = wss_state s"
  "wss_clients (emit_message rt w d s) = wss_clients s"
  "wss_close_cbs (emit_message rt w d s) = wss_close_cbs s"
  "clients (emit_message rt w d s) = clients s"
  "beforeSend (emit_message rt w d s) = beforeSend s"
  "afterSend (emit_message rt w d s) = afterSend s"
  "onMessage (emit_message rt w d s) = onMessage s"
  "enableLogging (emit_message rt w d s) = enableLogging s"
  "listeners (emit_message rt w d s) = listeners s"
  "next_ws (emit_message rt w d s) = next_ws s"
  by (simp_all add: emit_message_def split: option.splits)

lemma state_of_emit_message:
  "state_of (emit_message rt w d s) = state_of s \<or>
   state_of (emit_message rt w d s) = (state_of s)(w := to_closing (state_of s w))"
  by (simp add: emit_message_def state_of_on_message split: option.splits sum.splits)

lemma emit_close_fields [simp]:
  "wss_state (emit_close w s) = wss_state s"
  "wss_close_cbs (emit_close w s) = wss_close_cbs s"
  "beforeSend (emit_close w s) = beforeSend s"
  "afterSend (emit_close w s) = afterSend s"
  "onMessage (emit_close w s) = onMessage s"
  "enableLogging (emit_close w s) = enableLogging s"
  "next_ws (emit_close w s) = next_ws s"
  by (simp_all add: emit_close_def Let_def split: option.splits)

lemma emit_close_live:
  "live s w \<Longrightarrow>
   state_of (emit_close w s) = (state_of s)(w \<mapsto> CLOSED) \<and>
   wss_clients (emit_close w s) = removeAll w (wss_clients s) \<and>
   clients (emit_close w s) = (if listeners s w = None then clients s else assoc_delete (clients s) w) \<and>
   listeners (emit_close w s) = (listeners s)(w := None)"
  by (auto simp: emit_close_def live_def state_of_def Let_def split: option.splits)

lemma emit_close_not_live:
  "\<not> live s w \<Longrightarrow> emit_close w s = s"
  by (cases "sockets s w"; cases "readyState (the (sockets s w))")
     (auto simp: emit_close_def live_def state_of_def Let_def split: option.splits)

subsection \<open>Upgrade, shutdown and the tick\<close>

lemma onConnection_rejected:
  "rejected rt url \<Longrightarrow>
   onConnection rt ws url s =
     logger_warn (Line ''WebSocket connection closed due to failed authentication.'')
       (ws_close ws (Some 1008) (Some ''Authentication Failed'')
          (ws_send ws (error_payload rt ''Authentication Failed'') s))"
  by (auto simp: onConnection_def rejected_def Let_def split: option.splits)

lemma onConnection_accepted:
  "\<not> rejected rt url \<Longrightarrow>
   onConnection rt ws url s =
     (logger_log (Line (''User connected: '' @ bound_identity rt url))
        (s\<lparr>clients := assoc_set (clients s) ws (bound_identity rt url)\<rparr>))
     \<lparr>listeners := (listeners s)(ws \<mapsto> bound_identity rt url)\<rparr>"
  by (auto simp: onConnection_def rejected_def bound_identity_def Let_def split: option.splits)

lemma onConnection_fields [simp]:
  "wss_state (onConnection rt ws url s) = wss_state s"
  "wss_clients (onConnection rt ws url s) = wss_clients s"
  "wss_close_cbs (onConnection rt ws url s) = wss_close_cbs s"
  "beforeSend (onConnection rt ws url s) = beforeSend s"
  "afterSend (onConnection rt ws url s) = afterSend s"
  "onMessage (onConnection rt ws url s) = onMessage s"
  "enableLogging (onConnection rt ws url s) = enableLogging s"
  "next_ws (onConnection rt ws url s) = next_ws s"
  by (cases "rejected rt url"; simp add: onConnection_rejected onConnection_accepted)+

lemma onConnection_clients:
  "clients (onConnection rt ws url s) =
     (if rejected rt url then clients s else assoc_set (clients s) ws (bound_identity rt url))"
  by (simp add: onConnection_rejected onConnection_accepted)

lemma onConnection_listeners:
  "listeners (onConnection rt ws url s) =
     (if rejected rt url then listeners s else (listeners s)(ws \<mapsto> bound_identity rt url))"
  by (simp add: onConnection_rejected onConnection_accepted)

lemma onConnection_state_of:
  "state_of (onConnection rt ws url s) =
     (if rejected rt url then (state_of s)(ws := to_closing (state_of s ws)) else state_of s)"
  by (simp add: onConnection_rejected onConnection_accepted)

lemma handleUpgrade_not_running: "wss_state s \<noteq> RUNNING \<Longrightarrow> handleUpgrade rt url s = s"
  by (simp add: handleUpgrade_def)

lemma handleUpgrade_fields [simp]:
  "wss_state (handleUpgrade rt url s) = wss_state s"
  "wss_close_cbs (handleUpgrade rt url s) = wss_close_cbs s"
  "beforeSend (handleUpgrade rt url s) = beforeSend s"
  "afterSend (handleUpgrade rt url s) = afterSend s"
  "onMessage (handleUpgrade rt url s) = onMessage s"
  "enableLogging (handleUpgrade rt url s) = enableLogging s"
  by (simp_all add: handleUpgrade_def)

lemma handleUpgrade_running:
  assumes "wss_state s = RUNNING"
  shows "wss_clients (handleUpgrade rt url s) = wss_clients s @ [next_ws s]"
    and "next_ws (handleUpgrade rt url s) = Suc (next_ws s)"
    and "clients (handleUpgrade rt url s) =
           (if rejected rt url then clients s
            else assoc_set (clients s) (next_ws s) (bound_identity rt url))"
    and "listeners (handleUpgrade rt url s) =
           (if rejected rt url then listeners s
            else (listeners s)(next_ws s \<mapsto> bound_identity rt url))"
    and "state_of (handleUpgrade rt url s) =
           (state_of s)(next_ws s \<mapsto> (if rejected rt url then CLOSING else OPEN))"
proof -
  let ?s1 = "s\<lparr>wss_clients := wss_clients s @ [next_ws s],
               sockets := (sockets s)(next_ws s \<mapsto> \<lparr>readyState = OPEN, outbox = []\<rparr>),
               next_ws := Suc (next_ws s)\<rparr>"
  have h: "handleUpgrade rt url s = onConnection rt (next_ws s) url ?s1"
    using assms by (simp add: handleUpgrade_def)
  show "wss_clients (handleUpgrade rt url s) = wss_clients s @ [next_ws s]"
    by (simp add: h)
  show "next_ws (handleUpgrade rt url s) = Suc (next_ws s)"
    by (simp add: h)
  show "clients (handleUpgrade rt url s) =
           (if rejected rt url then clients s
            else assoc_set (clients s) (next_ws s) (bound_identity rt url))"
    by (simp add: h onConnection_clients)
  show "listeners (handleUpgrade rt url s) =
           (if rejected rt url then listeners s
            else (listeners s)(next_ws s \<mapsto> bound_identity rt url))"
    by (simp add: h onConnection_listeners)
  show "state_of (handleUpgrade rt url s) =
           (state_of s)(next_ws s \<mapsto> (if rejected rt url then CLOSING else OPEN))"
    by (rule ext) (simp add: h onConnection_state_of to_closing_def state_of_def)
qed

lemma sweep_fields [simp]:
  "wss_state (foldl close_entry s ps) = wss_state s"
  "wss_clients (foldl close_entry s ps) = wss_clients s"
  "wss_close_cbs (foldl close_entry s ps) = wss_close_cbs s"
  "clients (foldl close_entry s ps) = clients s"
  "beforeSend (foldl close_entry s ps) = beforeSend s"
  "afterSend (foldl close_entry s ps) = afterSend s"
  "onMessage (foldl close_entry s ps) = onMessage s"
  "enableLogging (foldl close_entry s ps) = enableLogging s"
  "listeners (foldl close_entry s ps) = listeners s"
  "next_ws (foldl close_entry s ps) = next_ws s"
  by (induction ps arbitrary: s; simp)+

lemma sweep_trace:
  "trace (foldl close_entry s ps) =
     trace s @ map (\<lambda>entry. CloseCall (fst entry) (Some 1001) (Some ''Server shutting down'')) ps"
  by (induction ps arbitrary: s) simp_all

lemma sweep_state_of:
  "state_of (foldl close_entry s ps) w =
     (if w \<in> fst ` set ps then to_closing (state_of s w) else state_of s w)"
  by (induction ps arbitrary: s) (auto simp: to_closing_def)

lemma sweep_sockets_notin:
  "w \<notin> fst ` set ps \<Longrightarrow> sockets (foldl close_entry s ps) w = sockets s w"
  by (induction ps arbitrary: s) auto

lemma sweep_sockets:
  "distinct (map fst ps) \<Longrightarrow>
   sockets (foldl close_entry s ps) w =
     (if w \<in> fst ` set ps \<and> is_open s w
      then map_option (closing (Close (Some 1001) (Some ''Server shutting down''))) (sockets s w)
      else sockets s w)"
proof (induction ps arbitrary: s)
  case Nil
  then show ?case by simp
next
  case (Cons p ps)
  then show ?case by (auto simp: sweep_sockets_notin)
qed

lemma close_fields [simp]:
  "wss_state (close s) = (if wss_state s = RUNNING then WSS_CLOSING else wss_state s)"
  "wss_clients (close s) = wss_clients s"
  "wss_close_cbs (close s) = Suc (wss_close_cbs s)"
  "clients (close s) = clients s"
  "beforeSend (close s) = beforeSend s"
  "afterSend (close s) = afterSend s"
  "onMessage (close s) = onMessage s"
  "enableLogging (close s) = enableLogging s"
  "listeners (close s) = listeners s"
  "next_ws (close s) = next_ws s"
  by (simp_all add: close_def)

lemma close_state_of:
  "state_of (close s) w =
     (if w \<in> fst ` set (clients s) then to_closing (state_of s w) else state_of s w)"
  by (simp add: close_def sweep_state_of)

lemma stop_fields [simp]:
  "wss_state (stop s) = (if wss_state s = RUNNING then WSS_CLOSING else wss_state s)"
  "wss_clients (stop s) = wss_clients s"
  "wss_close_cbs (stop s) = Suc (wss_close_cbs s)"
  "clients (stop s) = clients s"
  "beforeSend (stop s) = beforeSend s"
  "afterSend (stop s) = afterSend s"
  "onMessage (stop s) = onMessage s"
  "enableLogging (stop s) = enableLogging s"
  "listeners (stop s) = listeners s"
  "next_ws (stop s) = next_ws s"
  "sockets (stop s) = sockets (close s)"
  "state_of (stop s) = state_of (close s)"
  "trace (stop s) = trace (close s) @ [HttpClose]"
  by (simp_all add: stop_def Let_def state_of_def)

lemma warn_pow_fields [simp]:
  "wss_state ((logger_warn m ^^ n) s) = wss_state s"
  "wss_clients ((logger_warn m ^^ n) s) = wss_clients s"
  "wss_close_cbs ((logger_warn m ^^ n) s) = wss_close_cbs s"
  "clients ((logger_warn m ^^ n) s) = clients s"
  "beforeSend ((logger_warn m ^^ n) s) = beforeSend s"
  "afterSend ((logger_warn m ^^ n) s) = afterSend s"
  "onMessage ((logger_warn m ^^ n) s) = onMessage s"
  "enableLogging ((logger_warn m ^^ n) s) = enableLogging s"
  "sockets ((logger_warn m ^^ n) s) = sockets s"
  "listeners ((logger_warn m ^^ n) s) = listeners s"
  "next_ws ((logger_warn m ^^ n) s) = next_ws s"
  by (induction n; simp)+

lemma tick_fields [simp]:
  "wss_clients (tick s) = wss_clients s"
  "clients (tick s) = clients s"
  "beforeSend (tick s) = beforeSend s"
  "afterSend (tick s) = afterSend s"
  "onMessage (tick s) = onMessage s"
  "enableLogging (tick s) = enableLogging s"
  "sockets (tick s) = sockets s"
  "listeners (tick s) = listeners s"
  "next_ws (tick s) = next_ws s"
  by (simp_all add: tick_def)

lemma tick_state_of [simp]: "state_of (tick s) = state_of s"
  by (rule ext) (simp add: state_of_def)

lemma tick_running: "(wss_state (tick s) = RUNNING) = (wss_state s = RUNNING)"
  by (simp add: tick_def)

lemma tick_idle: "wss_clients s \<noteq> [] \<Longrightarrow> tick s = s"
  by (simp add: tick_def)

lemma setLifecycleHooks_fields [simp]:
  "wss_state (setLifecycleHooks b a s) = wss_state s"
  "wss_clients (setLifecycleHooks b a s) = wss_clients s"
  "wss_close_cbs (setLifecycleHooks b a s) = wss_close_cbs s"
  "clients (setLifecycleHooks b a s) = clients s"
  "beforeSend (setLifecycleHooks b a s) = b"
  "afterSend (setLifecycleHooks b a s) = a"
  "onMessage (setLifecycleHooks b a s) = onMessage s"
  "enableLogging (setLifecycleHooks b a s) = enableLogging s"
  "sockets (setLifecycleHooks b a s) = sockets s"
  "listeners (setLifecycleHooks b a s) = listeners s"
  "next_ws (setLifecycleHooks b a s) = next_ws s"
  "trace (setLifecycleHooks b a s) = trace s"
  "state_of (setLifecycleHooks b a s) = state_of s"
  by (simp_all add: setLifecycleHooks_def)

section \<open>The state invariant\<close>

subsection \<open>Association lists\<close>

lemma map_of_assoc_set [simp]: "map_of (assoc_set ps k v) = (map_of ps)(k \<mapsto> v)"
  by (induction ps) (auto simp: fun_upd_twist)

lemma map_fst_assoc_set:
  "map fst (assoc_set ps k v) = (if k \<in> set (map fst ps) then map fst ps else map fst ps @ [k])"
  by (induction ps) force+

lemma fst_assoc_set [simp]: "fst ` set (assoc_set ps k v) = insert k (fst ` set ps)"
proof -
  have "set (map fst (assoc_set ps k v)) = insert k (set (map fst ps))"
    unfolding map_fst_assoc_set by auto
  then show ?thesis by simp
qed


lemma distinct_assoc_set [simp]:
  "distinct (map fst ps) \<Longrightarrow> distinct (map fst (assoc_set ps k v))"
  by (simp add: map_fst_assoc_set)

lemma map_of_assoc_delete [simp]:
  "map_of (assoc_delete ps k) = (map_of ps)(k := None)"
  by (induction ps) (auto simp: assoc_delete_def)

lemma fst_assoc_delete [simp]: "fst ` set (assoc_delete ps k) = fst ` set ps - {k}"
  by (auto simp: assoc_delete_def)

lemma distinct_assoc_delete [simp]:
  "distinct (map fst ps) \<Longrightarrow> distinct (map fst (assoc_delete ps k))"
  by (simp add: assoc_delete_def distinct_map_filter)

lemma map_of_eq_None_fst: "(map_of ps k = None) = (k \<notin> fst ` set ps)"
  by (simp add: map_of_eq_None_iff)

subsection \<open>The invariant\<close>

lemma live_simps [simp]:
  "live s w \<Longrightarrow> state_of s w \<noteq> None"
  "state_of s w = Some OPEN \<Longrightarrow> live s w"
  "state_of s w = None \<Longrightarrow> \<not> live s w"
  by (auto simp: live_def)

lemma consistentD:
  assumes "consistent s"
  shows "distinct (wss_clients s)"
    and "distinct (map fst (clients s))"
    and "(w \<in> set (wss_clients s)) = live s w"
    and "state_of s w \<noteq> None \<Longrightarrow> w < next_ws s"
    and "listeners s w = map_of (clients s) w"
    and "listeners s w \<noteq> None \<Longrightarrow> live s w"
    and "state_of s w = Some OPEN \<Longrightarrow> listeners s w \<noteq> None"
  using assms unfolding consistent_def by blast+

lemma consistent_constructor: "consistent (constructor cfg)"
  by (simp add: consistent_def constructor_def live_def state_of_def)

lemma consistent_cong:
  assumes "consistent s"
    and "wss_clients s' = wss_clients s" "clients s' = clients s"
    and "listeners s' = listeners s" "next_ws s' = next_ws s"
    and "\<And>w. state_of s' w = state_of s w \<or>
              (state_of s w = Some OPEN \<and> state_of s' w = Some CLOSING \<and> listeners s w \<noteq> None)
              \<or> (state_of s w = Some OPEN \<and> state_of s' w = Some CLOSING)"
  shows "consistent s'"
proof -
  have l: "live s' w = live s w" for w
    using assms(6)[of w] by (auto simp: live_def)
  have o: "state_of s' w = Some OPEN \<Longrightarrow> state_of s w = Some OPEN" for w
    using assms(6)[of w] by auto
  have n: "state_of s' w \<noteq> None \<Longrightarrow> state_of s w \<noteq> None" for w
    using assms(6)[of w] by auto
  show ?thesis
    unfolding consistent_def assms(2-5) l
    using assms(1) o n by (auto simp: consistent_def)
qed

lemma to_closing_cases:
  "((state_of s)(w := to_closing (state_of s w))) w' = state_of s w' \<or>
   (state_of s w' = Some OPEN \<and> ((state_of s)(w := to_closing (state_of s w))) w' = Some CLOSING)"
  by (auto simp: to_closing_def)

lemma consistent_emit_message: "consistent s \<Longrightarrow> consistent (emit_message rt w d s)"
proof (rule consistent_cong[where s = s])
  fix w'
  show "state_of (emit_message rt w d s) w' = state_of s w' \<or>
        (state_of s w' = Some OPEN \<and> state_of (emit_message rt w d s) w' = Some CLOSING \<and>
         listeners s w' \<noteq> None) \<or>
        (state_of s w' = Some OPEN \<and> state_of (emit_message rt w d s) w' = Some CLOSING)"
    using state_of_emit_message[of rt w d s] to_closing_cases[of s w w'] by auto
qed simp_all

lemma consistent_start_closing: "consistent s \<Longrightarrow> consistent (start_closing w s)"
proof (rule consistent_cong[where s = s])
  fix w'
  show "state_of (start_closing w s) w' = state_of s w' \<or>
        (state_of s w' = Some OPEN \<and> state_of (start_closing w s) w' = Some CLOSING \<and>
         listeners s w' \<noteq> None) \<or>
        (state_of s w' = Some OPEN \<and> state_of (start_closing w s) w' = Some CLOSING)"
    using to_closing_cases[of s w w'] by auto
qed simp_all

lemma consistent_emit_error: "consistent s \<Longrightarrow> consistent (emit_error w e s)"
proof (rule consistent_cong[where s = s])
  fix w'
  show "state_of (emit_error w e s) w' = state_of s w' \<or>
        (state_of s w' = Some OPEN \<and> state_of (emit_error w e s) w' = Some CLOSING \<and>
         listeners s w' \<noteq> None) \<or>
        (state_of s w' = Some OPEN \<and> state_of (emit_error w e s) w' = Some CLOSING)"
    using to_closing_cases[of s w w'] by auto
qed simp_all

lemma consistent_setLifecycleHooks: "consistent s \<Longrightarrow> consistent (setLifecycleHooks b a s)"
  by (rule consistent_cong[where s = s]) simp_all

lemma consistent_stop: "consistent s \<Longrightarrow> consistent (stop s)"
proof (rule consistent_cong[where s = s])
  fix w'
  show "state_of (stop s) w' = state_of s w' \<or>
        (state_of s w' = Some OPEN \<and> state_of (stop s) w' = Some CLOSING \<and>
         listeners s w' \<noteq> None) \<or>
        (state_of s w' = Some OPEN \<and> state_of (stop s) w' = Some CLOSING)"
    by (auto simp: close_state_of to_closing_def)
qed simp_all

lemma consistent_tick: "consistent s \<Longrightarrow> consistent (tick s)"
  by (rule consistent_cong[where s = s]) simp_all

lemma consistent_emit_close: "consistent s \<Longrightarrow> consistent (emit_close w s)"
proof (cases "live s w")
  case False
  assume "consistent s"
  then show ?thesis using False by (simp add: emit_close_not_live)
next
  case True
  assume i: "consistent s"
  note e = emit_close_live[OF True]
  have st: "state_of (emit_close w s) = (state_of s)(w \<mapsto> CLOSED)" using e by simp
  have wc: "wss_clients (emit_close w s) = removeAll w (wss_clients s)" using e by simp
  have ls: "listeners (emit_close w s) = (listeners s)(w := None)" using e by simp
  have cl: "clients (emit_close w s) =
      (if listeners s w = None then clients s else assoc_delete (clients s) w)"
    using e by simp
  have lv: "\<And>w'. live (emit_close w s) w' = (live s w' \<and> w' \<noteq> w)"
    by (auto simp: live_def st)
  have mo: "\<And>w'. map_of (clients (emit_close w s)) w' = ((listeners s)(w := None)) w'"
    using i by (auto simp: cl consistent_def)
  show ?thesis
    unfolding consistent_def
  proof (intro conjI allI impI)
    show "distinct (wss_clients (emit_close w s))"
      using i by (simp add: wc consistent_def distinct_removeAll)
    show "distinct (map fst (clients (emit_close w s)))"
      using i by (simp add: cl consistent_def)
    show "\<And>w'. (w' \<in> set (wss_clients (emit_close w s))) = live (emit_close w s) w'"
      using i by (auto simp: wc lv consistent_def)
    show "\<And>w'. state_of (emit_close w s) w' \<noteq> None \<Longrightarrow> w' < next_ws (emit_close w s)"
      using consistentD(4)[OF i] True by (auto simp: st live_def split: if_splits)
    show "\<And>w'. listeners (emit_close w s) w' = map_of (clients (emit_close w s)) w'"
      by (simp add: mo ls)
    show "\<And>w'. listeners (emit_close w s) w' \<noteq> None \<Longrightarrow> live (emit_close w s) w'"
      using i by (auto simp: ls lv consistent_def split: if_splits)
    show "\<And>w'. state_of (emit_close w s) w' = Some OPEN \<Longrightarrow> listeners (emit_close w s) w' \<noteq> None"
      using i by (auto simp: ls st consistent_def split: if_splits)
  qed
qed

lemma consistent_handleUpgrade: "consistent s \<Longrightarrow> consistent (handleUpgrade rt url s)"
proof (cases "wss_state s = RUNNING")
  case False
  assume "consistent s"
  then show ?thesis using False by (simp add: handleUpgrade_not_running)
next
  case True
  assume i: "consistent s"
  note h = handleUpgrade_running[OF True, of rt url]
  let ?n = "next_ws s"
  let ?s' = "handleUpgrade rt url s"
  have fresh: "state_of s ?n = None"
    using i by (fastforce simp: consistent_def)
  have nl: "\<not> live s ?n" using fresh by simp
  have nk: "?n \<notin> set (wss_clients s)" using i nl by (simp add: consistent_def)
  have nr: "listeners s ?n = None" using consistentD(6)[OF i, of ?n] nl by blast
  have nm: "map_of (clients s) ?n = None" using consistentD(5)[OF i, of ?n] nr by simp
  have lv: "\<And>w. live ?s' w = (live s w \<or> w = ?n)"
    by (auto simp: live_def h(5))
  show ?thesis
    unfolding consistent_def
  proof (intro conjI allI impI)
    show "distinct (wss_clients ?s')"
      using i nk by (simp add: h(1) consistent_def)
    show "distinct (map fst (clients ?s'))"
      using i by (simp add: h(3) consistent_def)
    show "\<And>w. (w \<in> set (wss_clients ?s')) = live ?s' w"
      using i by (auto simp: h(1) lv consistent_def)
    show "\<And>w. state_of ?s' w \<noteq> None \<Longrightarrow> w < next_ws ?s'"
      using i by (auto simp: h(2) h(5) consistent_def less_Suc_eq split: if_splits)
    show "\<And>w. listeners ?s' w = map_of (clients ?s') w"
      using consistentD(5)[OF i] by (simp add: h(3) h(4))
    show "\<And>w. listeners ?s' w \<noteq> None \<Longrightarrow> live ?s' w"
      using consistentD(6)[OF i] by (auto simp: h(4) lv split: if_splits)
    show "\<And>w. state_of ?s' w = Some OPEN \<Longrightarrow> listeners ?s' w \<noteq> None"
      using consistentD(7)[OF i] by (auto simp: h(4) h(5) split: if_splits)
  qed
qed

lemma consistent_handle: "consistent s \<Longrightarrow> consistent (handle rt ev s)"
  by (cases ev)
     (simp_all add: consistent_handleUpgrade consistent_emit_message consistent_start_closing consistent_emit_close
        consistent_emit_error consistent_setLifecycleHooks consistent_stop)

lemma consistent_step: "consistent s \<Longrightarrow> consistent (step rt ev s)"
  by (simp add: step_def consistent_tick consistent_handle)

lemma consistent_run: "consistent s \<Longrightarrow> consistent (run rt evs s)"
  by (induction evs arbitrary: s) (simp_all add: consistent_step)

lemma consistent_reachable: "consistent (run rt evs (constructor cfg))"
  by (simp add: consistent_run consistent_constructor)

subsection \<open>Fields that no event changes\<close>

lemma onMessage_handle [simp]: "onMessage (handle rt ev s) = onMessage s"
  by (cases ev) simp_all

lemma onMessage_step [simp]: "onMessage (step rt ev s) = onMessage s"
  by (simp add: step_def)

lemma onMessage_run [simp]: "onMessage (run rt evs s) = onMessage s"
  by (induction evs arbitrary: s) simp_all

lemma enableLogging_handle [simp]: "enableLogging (handle rt ev s) = enableLogging s"
  by (cases ev) simp_all

lemma enableLogging_step [simp]: "enableLogging (step rt ev s) = enableLogging s"
  by (simp add: step_def)

lemma enableLogging_run [simp]: "enableLogging (run rt evs s) = enableLogging s"
  by (induction evs arbitrary: s) simp_all

lemma hooks_run_upgrades [simp]:
  "beforeSend (step rt (Upgrade url) s) = beforeSend s"
  "afterSend (step rt (Upgrade url) s) = afterSend s"
  by (simp_all add: step_def)

lemma demo_hooks:
  "onMessage (demo_run cfg) = config_onMessage cfg"
  "beforeSend (demo_run cfg) =
     (case config_hooks cfg of None \<Rightarrow> None | Some h \<Rightarrow> hooks_beforeSend h)"
  "afterSend (demo_run cfg) =
     (case config_hooks cfg of None \<Rightarrow> None | Some h \<Rightarrow> hooks_afterSend h)"
  by (simp_all add: demo_run_def demo_events_def constructor_def)

lemma demo_reachable: "demo_run cfg = run demo_runtime demo_events (constructor cfg)"
  by (simp add: demo_run_def)

subsection \<open>How an event changes the sockets and the registry\<close>

lemma emit_message_live:
  "emit_message rt w d s =
     (case listeners s w of
        None \<Rightarrow> s
      | Some user \<Rightarrow> if live s w then on_message rt w user d s else s)"
  by (cases "sockets s w"; cases "readyState (the (sockets s w))")
     (auto simp: emit_message_def live_def state_of_def split: option.splits)

lemma state_of_handle_cases:
  "state_of (handle rt ev s) w = state_of s w \<or>
   (state_of s w = Some OPEN \<and> state_of (handle rt ev s) w = Some CLOSING) \<or>
   (live s w \<and> state_of (handle rt ev s) w = Some CLOSED) \<or>
   (w = next_ws s \<and> wss_state s = RUNNING)"
proof (cases ev)
  case (Upgrade url)
  then show ?thesis
    by (cases "wss_state s = RUNNING")
       (auto simp: handleUpgrade_not_running handleUpgrade_running(5))
next
  case (Message w' d)
  then show ?thesis
    using state_of_emit_message[of rt w' d s] to_closing_cases[of s w' w] by auto
next
  case (PeerClosing w')
  then show ?thesis using to_closing_cases[of s w' w] by auto
next
  case (Closed w')
  then show ?thesis
    by (cases "live s w'") (auto simp: emit_close_not_live emit_close_live)
next
  case (Errored w' e)
  then show ?thesis using to_closing_cases[of s w' w] by auto
next
  case (SetLifecycleHooks b a)
  then show ?thesis by simp
next
  case Stop
  then show ?thesis by (auto simp: close_state_of to_closing_def)
qed

lemma state_of_step_cases:
  "state_of (step rt ev s) w = state_of s w \<or>
   (state_of s w = Some OPEN \<and> state_of (step rt ev s) w = Some CLOSING) \<or>
   (live s w \<and> state_of (step rt ev s) w = Some CLOSED) \<or>
   (w = next_ws s \<and> wss_state s = RUNNING)"
  using state_of_handle_cases[of rt ev s w] by (simp add: step_def)

lemma next_ws_handle: "next_ws s \<le> next_ws (handle rt ev s)"
proof (cases ev)
  case (Upgrade url)
  then show ?thesis
    by (cases "wss_state s = RUNNING")
       (simp_all add: handleUpgrade_not_running handleUpgrade_running(2))
qed simp_all

lemma next_ws_step: "next_ws s \<le> next_ws (step rt ev s)"
  by (simp add: step_def next_ws_handle)

lemma never_reopens_step:
  assumes "\<not> is_open s w" "w < next_ws s"
  shows "\<not> is_open (step rt ev s) w \<and> w < next_ws (step rt ev s)"
  using assms state_of_step_cases[of rt ev s w] next_ws_step[of s rt ev]
  by (auto simp: is_open_state_of)

lemma never_reopens:
  "\<not> is_open s w \<Longrightarrow> w < next_ws s \<Longrightarrow> \<not> is_open (run rt evs s) w"
proof (induction evs arbitrary: s)
  case Nil
  then show ?case by simp
next
  case (Cons ev evs)
  then show ?case using never_reopens_step[of s w rt ev] by simp
qed

lemma keys_handle:
  "w \<in> fst ` set (clients (handle rt ev s)) \<Longrightarrow>
   w \<in> fst ` set (clients s) \<or> (w = next_ws s \<and> wss_state s = RUNNING)"
proof (cases ev)
  case (Upgrade url)
  assume "w \<in> fst ` set (clients (handle rt ev s))"
  then show ?thesis using Upgrade
    by (cases "wss_state s = RUNNING")
       (auto simp: handleUpgrade_not_running handleUpgrade_running(3) split: if_splits)
next
  case (Closed w')
  assume "w \<in> fst ` set (clients (handle rt ev s))"
  then show ?thesis using Closed
    by (cases "live s w'") (auto simp: emit_close_not_live emit_close_live split: if_splits)
qed auto

lemma keys_step:
  "w \<in> fst ` set (clients (step rt ev s)) \<Longrightarrow>
   w \<in> fst ` set (clients s) \<or> (w = next_ws s \<and> wss_state s = RUNNING)"
  using keys_handle[of w rt ev s] by (simp add: step_def)



lemma wss_state_handle: "wss_state s \<noteq> RUNNING \<Longrightarrow> wss_state (handle rt ev s) \<noteq> RUNNING"
  by (cases ev) simp_all

lemma wss_state_step: "wss_state s \<noteq> RUNNING \<Longrightarrow> wss_state (step rt ev s) \<noteq> RUNNING"
  by (simp add: step_def tick_running wss_state_handle)

lemma closed_unregisters:
  assumes "consistent s"
  shows "w \<notin> fst ` set (clients (step rt (Closed w) s))"
proof (cases "live s w")
  case True
  then show ?thesis 
    using consistentD(5)[OF assms, of w]
    by (auto simp: step_def emit_close_live map_of_eq_None_fst[symmetric])
next
  case False
  then have "listeners s w = None" using consistentD(6)[OF assms, of w] by blast
  then have "w \<notin> fst ` set (clients s)"
    using consistentD(5)[OF assms, of w] by (simp add: map_of_eq_None_fst)
  then show ?thesis using False by (simp add: step_def emit_close_not_live)
qed

lemma registry_after_shutdown:
  assumes "consistent s" "wss_state s \<noteq> RUNNING"
  shows "fst ` set (clients (run rt evs s)) \<subseteq> fst ` set (clients s) - {w. Closed w \<in> set evs}"
  using assms
proof (induction evs arbitrary: s)
  case Nil
  then show ?case by simp
next
  case (Cons ev evs)
  let ?s1 = "step rt ev s"
  have c: "consistent ?s1" using Cons.prems(1) by (rule consistent_step)
  have r: "wss_state ?s1 \<noteq> RUNNING" using Cons.prems(2) by (rule wss_state_step)
  have sub: "fst ` set (clients ?s1) \<subseteq> fst ` set (clients s)"
    using keys_step[of _ rt ev s] Cons.prems(2) by auto
  have gone: "\<And>w. ev = Closed w \<Longrightarrow> w \<notin> fst ` set (clients ?s1)"
    using closed_unregisters[OF Cons.prems(1)] by simp
  have "fst ` set (clients (run rt evs ?s1)) \<subseteq> fst ` set (clients ?s1) - {w. Closed w \<in> set evs}"
    using Cons.IH[OF c r] .
  then show ?case using sub gone by auto
qed

section \<open>Hooks and dispatch\<close>

subsection \<open>What a step adds to the actions\<close>

lemma performed_append [simp]: "trace s' = trace s @ acts \<Longrightarrow> performed s s' = acts"
  by (simp add: performed_def)

lemma invocations_sends [simp]: "invocations (map (\<lambda>w. Send w d) ws) = []"
  by (induction ws) (simp_all add: invocations_def)

lemma invocations_simps [simp]:
  "invocations [] = []"
  "invocations (Invoke c m # acts) = Invoke c m # invocations acts"
  "invocations (Send w d # acts) = invocations acts"
  "invocations (CloseCall w co r # acts) = invocations acts"
  "invocations (Console l t # acts) = invocations acts"
  "invocations (WssClose # acts) = invocations acts"
  "invocations (HttpClose # acts) = invocations acts"
  "invocations (Uncaught e # acts) = invocations acts"
  "invocations (acts @ acts') = invocations acts @ invocations acts'"
  by (simp_all add: invocations_def)

lemma close_calls_sends [simp]: "filter is_close_call (map (\<lambda>w. Send w d) ws) = []"
  by (induction ws) simp_all

lemma on_message_trace:
  "trace (on_message rt ws user data s) =
     trace s @
     (case decode rt user data of
        Inl e \<Rightarrow>
          [Console ERROR (ErrorParsing e), Send ws (error_payload rt ''Invalid JSON format''),
           CloseCall ws None None]
      | Inr m \<Rightarrow>
          dispatch_actions rt m s @
          (case dispatch_raises m s of
             Some error \<Rightarrow> catch_actions rt ws error
           | None \<Rightarrow> []))"
  by (simp add: on_message_alt dispatch_trace fst_dispatch split: sum.splits option.splits)

lemma invocations_catch_actions [simp]: "invocations (catch_actions rt ws error) = []"
  by (simp add: catch_actions_def split: thrown.splits)

lemma close_calls_catch_actions [simp]: "filter is_close_call (catch_actions rt ws error) = []"
  by (simp add: catch_actions_def split: thrown.splits)

lemma invocations_after_hook:
  "invocations (after_hook rt m1 s) =
     Invoke BroadcastMessage m1 # (case afterSend s of None \<Rightarrow> [] | Some g \<Rightarrow> [Invoke AfterSend m1])"
  by (simp add: after_hook_def split: option.splits)

lemma close_calls_dispatch: "filter is_close_call (dispatch_actions rt m s) = []"
  by (simp add: dispatch_actions_def after_hook_def split: option.splits sum.splits)

text \<open>
  C10: every call of \<open>setLifecycleHooks\<close> overwrites both hooks with its two arguments,
  so an omitted argument clears the hook, also one that came with the configuration at
  construction; the custom handler and every other field of the state stay as they were.
\<close>

theorem setLifecycleHooks_overwrites_both:
  "beforeSend (setLifecycleHooks pre post s) = pre \<and>
   afterSend (setLifecycleHooks pre post s) = post \<and>
   onMessage (setLifecycleHooks pre post s) = onMessage s \<and>
   (setLifecycleHooks pre post s)\<lparr>beforeSend := beforeSend s, afterSend := afterSend s\<rparr> = s \<and>
   beforeSend (setLifecycleHooks None post (constructor cfg)) = None \<and>
   afterSend (setLifecycleHooks pre None (constructor cfg)) = None"
  by (simp add: setLifecycleHooks_def)

text \<open>
  C7: for a message that was decoded, the handler is looked up when the message is
  dispatched. With a handler, the only invocation is the handler's, with the message:
  no pre-hook, no broadcast, no post-hook, and nothing is sent but the error payload to
  the sender when the handler throws an error object (a thrown \<open>null\<close> or \<open>undefined\<close>
  leaves the listener uncaught). Without one, the invocations are the pre-hook (if
  present), then the broadcast, then the post-hook (if present), in this order; an
  exception of the pre-hook ends the sequence there.
\<close>

theorem dispatch_takes_one_path:
  assumes "decode rt user data = Inr m"
  shows "invocations (performed s (on_message rt ws user data s)) =
           (case onMessage s of
              Some h \<Rightarrow> [Invoke OnMessage m]
            | None \<Rightarrow>
                (case beforeSend s of
                   None \<Rightarrow>
                     Invoke BroadcastMessage m #
                     (case afterSend s of None \<Rightarrow> [] | Some g \<Rightarrow> [Invoke AfterSend m])
                 | Some h \<Rightarrow>
                     Invoke BeforeSend m #
                     (case h m of
                        Inl e \<Rightarrow> []
                      | Inr m1 \<Rightarrow>
                          Invoke BroadcastMessage m1 #
                          (case afterSend s of None \<Rightarrow> [] | Some g \<Rightarrow> [Invoke AfterSend m1])))) \<and>
         (\<forall>h. onMessage s = Some h \<longrightarrow>
            performed s (on_message rt ws user data s) =
              Invoke OnMessage m #
              (case h m of
                 Inl error \<Rightarrow>
                   (case error of
                      Thrown e \<Rightarrow>
                        [Console ERROR (ErrorProcessing e),
                         Send ws (error_payload rt ''Internal server error'')]
                    | ThrownNull \<Rightarrow> [Uncaught TypeError]
                    | ThrownUndefined \<Rightarrow> [Uncaught TypeError])
               | Inr m1 \<Rightarrow> []))"
  using assms
  by (simp add: on_message_trace dispatch_actions_def dispatch_raises_def invocations_after_hook
      catch_actions_def split: option.splits sum.splits thrown.splits)


theorem dispatch_takes_one_path_witness:
  \<open>invocations
      (performed alice_and_guest
         (on_message demo_runtime 0 ''alice'' ''{"sender":"forged","content":"hi"}''
            alice_and_guest)) =
     [Invoke BroadcastMessage (JObj [(''sender'', JStr ''alice''), (''content'', JStr ''hi'')])] \<and>
   performed with_handler
     (on_message demo_runtime 0 ''alice'' ''{"sender":"forged","content":"hi"}'' with_handler) =
     [Invoke OnMessage (JObj [(''sender'', JStr ''alice''), (''content'', JStr ''hi'')])]\<close>
proof -
  let ?m = "JObj [(''sender'', JStr ''alice''), (''content'', JStr ''hi'')]"
  have d: \<open>decode demo_runtime ''alice'' ''{"sender":"forged","content":"hi"}'' = Inr ?m\<close>
    by code_simp
  have h: "onMessage alice_and_guest = None" "beforeSend alice_and_guest = None"
    "afterSend alice_and_guest = None" "onMessage with_handler = Some quiet_handler"
    by (simp_all add: alice_and_guest_def with_handler_def demo_hooks plain_config_def)
  have q: "quiet_handler ?m = Inr ?m"
    by (simp add: quiet_handler_def)
  show ?thesis
    using dispatch_takes_one_path[OF d, of alice_and_guest 0]
      dispatch_takes_one_path[OF d, of with_handler 0]
    by (simp add: h q)
qed
section \<open>Failures in the message listener\<close>

subsection \<open>A frame from a registered connection\<close>

lemma registered_listener:
  "consistent s \<Longrightarrow> map_of (clients s) ws = Some user \<Longrightarrow>
   listeners s ws = Some user \<and> live s ws \<and> ws \<in> set (wss_clients s) \<and> ws < next_ws s"
  using consistentD(3,4,5,6)[of s ws] by (auto simp: live_def)

lemma step_message:
  assumes "consistent s" "map_of (clients s) ws = Some user"
  shows "step rt (Message ws data) s = on_message rt ws user data s"
proof -
  note r = registered_listener[OF assms]
  have e: "emit_message rt ws data s = on_message rt ws user data s"
    using r by (simp add: emit_message_live)
  have "wss_clients (on_message rt ws user data s) \<noteq> []"
    using r by auto
  then show ?thesis by (simp add: step_def e tick_idle)
qed

lemma on_message_rejects:
  assumes "decode rt user data = Inl e"
  shows "on_message rt ws user data s =
           ws_close ws None None
             (ws_send ws (error_payload rt ''Invalid JSON format'')
                (logger_error (ErrorParsing e) s))"
  using assms by (simp add: on_message_def)

lemma outbox_of_simps [simp]:
  "outbox_of (logger_error m s) = outbox_of s"
  "outbox_of (logger_log m s) = outbox_of s"
  "outbox_of (logger_warn m s) = outbox_of s"
  "outbox_of (s\<lparr>trace := t\<rparr>) = outbox_of s"
  by (rule ext, simp add: outbox_of_def)+

lemma outbox_of_ws_send [simp]:
  "outbox_of (ws_send w d s) w' =
     (if w' = w \<and> is_open s w then outbox_of s w @ [Text d] else outbox_of s w')"
  by (auto simp: outbox_of_def is_open_def split: option.splits)

lemma outbox_of_ws_close [simp]:
  "outbox_of (ws_close w c r s) w' =
     (if w' = w \<and> is_open s w then outbox_of s w @ [Close c r] else outbox_of s w')"
  by (auto simp: outbox_of_def is_open_def split: option.splits)

lemma outbox_of_catch_processing [simp]:
  "outbox_of (catch_processing rt ws error s) w' =
     (case error of
        Thrown e \<Rightarrow>
          if w' = ws \<and> is_open s ws
          then outbox_of s ws @ [Text (error_payload rt ''Internal server error'')]
          else outbox_of s w'
      | ThrownNull \<Rightarrow> outbox_of s w'
      | ThrownUndefined \<Rightarrow> outbox_of s w')"
  by (simp add: catch_processing_def split: thrown.splits)

lemma received_same [simp]: "received s s w = []"
  by (simp add: received_def)

text \<open>
  C3: a frame from a registered connection that fails to decode (\<open>JSON.parse\<close> throws,
  or the assignment of \<open>sender\<close> does): the error is logged, then the payload
  \<open>{"error":"Invalid JSON format"}\<close> is sent to the sender, then the sender is closed, and
  nothing else is done. An open sender receives the payload and the close frame; it is
  not open afterwards and never again, whatever events follow. Every other socket, the
  registry, the listeners and the acceptor are as before.
\<close>

theorem decode_failure_closes_only_the_sender:
  assumes "s = run rt evs (constructor cfg)"
    and "map_of (clients s) ws = Some user"
    and "decode rt user data = Inl e"
  shows "performed s (step rt (Message ws data) s) =
           [Console ERROR (ErrorParsing e),
            Send ws (error_payload rt ''Invalid JSON format''),
            CloseCall ws None None] \<and>
         (is_open s ws \<longrightarrow>
            received s (step rt (Message ws data) s) ws =
              [Text (error_payload rt ''Invalid JSON format''), Close None None]) \<and>
         (\<forall>evs'. \<not> is_open (run rt evs' (step rt (Message ws data) s)) ws) \<and>
         (\<forall>w. w \<noteq> ws \<longrightarrow> sockets (step rt (Message ws data) s) w = sockets s w) \<and>
         clients (step rt (Message ws data) s) = clients s \<and>
         listeners (step rt (Message ws data) s) = listeners s \<and>
         wss_clients (step rt (Message ws data) s) = wss_clients s \<and>
         wss_state (step rt (Message ws data) s) = wss_state s"
proof -
  have c: "consistent s" using assms(1) by (simp add: consistent_reachable)
  let ?s' = "on_message rt ws user data s"
  have st: "step rt (Message ws data) s = ?s'"
    using c assms(2) by (rule step_message)
  note rej = on_message_rejects[OF assms(3), of ws s]
  have closed: "\<not> is_open ?s' ws" by (simp add: rej)
  have alloc: "ws < next_ws ?s'"
    using registered_listener[OF c assms(2)] by simp
  have "performed s ?s' =
      [Console ERROR (ErrorParsing e), Send ws (error_payload rt ''Invalid JSON format''),
       CloseCall ws None None]"
    by (simp add: rej)
  moreover have "is_open s ws \<longrightarrow>
      received s ?s' ws = [Text (error_payload rt ''Invalid JSON format''), Close None None]"
    by (simp add: rej received_def)
  moreover have "\<forall>evs'. \<not> is_open (run rt evs' ?s') ws"
    using never_reopens[OF closed alloc] by simp
  moreover have "\<forall>w. w \<noteq> ws \<longrightarrow> sockets ?s' w = sockets s w"
    by (simp add: rej)
  ultimately show ?thesis by (simp add: st)
qed

theorem decode_failure_closes_only_the_sender_witness:
  \<open>received alice_and_guest (step demo_runtime (Message 0 ''not json'') alice_and_guest) 0 =
     [Text ''{"error":"Invalid JSON format"}'', Close None None] \<and>
   sockets (step demo_runtime (Message 0 ''not json'') alice_and_guest) 1 =
     sockets alice_and_guest 1 \<and>
   \<not> is_open
       (run demo_runtime [Message 0 ''{"content":"again"}'']
          (step demo_runtime (Message 0 ''not json'') alice_and_guest)) 0\<close>
proof -
  have r: "alice_and_guest = run demo_runtime demo_events (constructor plain_config)"
    by (simp add: alice_and_guest_def demo_reachable)
  have u: "map_of (clients alice_and_guest) 0 = Some ''alice''"
    by code_simp
  have d: "decode demo_runtime ''alice'' ''not json'' = Inl SyntaxError"
    by code_simp
  have o: "is_open alice_and_guest 0"
    by code_simp
  have t: \<open>error_payload demo_runtime ''Invalid JSON format'' = ''{"error":"Invalid JSON format"}''\<close>
    by code_simp
  note th = decode_failure_closes_only_the_sender[OF r u d]
  have "received alice_and_guest (step demo_runtime (Message 0 ''not json'') alice_and_guest) 0 =
      [Text (error_payload demo_runtime ''Invalid JSON format''), Close None None]"
    using th o by blast
  moreover have "sockets (step demo_runtime (Message 0 ''not json'') alice_and_guest) 1 =
      sockets alice_and_guest 1"
    using th by simp
  moreover have \<open>\<not> is_open
       (run demo_runtime [Message 0 ''{"content":"again"}'']
          (step demo_runtime (Message 0 ''not json'') alice_and_guest)) 0\<close>
    using th by blast
  ultimately show ?thesis by (simp add: t)
qed

text \<open>
  An exception that is an error object is answered after what the dispatch did: the
  error is logged, then the payload \<open>{"error":"Internal server error"}\<close> is sent to the
  sender, which receives it when it is open. No close is called and every socket keeps
  its state; the registry and the listeners are as before, so the next frame of the
  connection goes through the same listener.
\<close>

lemma error_object_is_answered:
  assumes "decode rt user data = Inr m"
    and "fst (dispatch rt m s) = Some (Thrown e)"
  shows "performed s (on_message rt ws user data s) =
           performed s (snd (dispatch rt m s)) @
           [Console ERROR (ErrorProcessing e),
            Send ws (error_payload rt ''Internal server error'')] \<and>
         filter is_close_call (performed s (on_message rt ws user data s)) = [] \<and>
         state_of (on_message rt ws user data s) = state_of s \<and>
         clients (on_message rt ws user data s) = clients s \<and>
         listeners (on_message rt ws user data s) = listeners s \<and>
         (is_open s ws \<longrightarrow>
            last (outbox_of (on_message rt ws user data s) ws) =
              Text (error_payload rt ''Internal server error'')) \<and>
         (listeners s ws = Some user \<and> live s ws \<longrightarrow>
            (\<forall>data'. emit_message rt ws data' (on_message rt ws user data s) =
                      on_message rt ws user data' (on_message rt ws user data s)))"
proof -
  let ?s1 = "snd (dispatch rt m s)"
  let ?s' = "on_message rt ws user data s"
  have s': "?s' = ws_send ws (error_payload rt ''Internal server error'')
                    (logger_error (ErrorProcessing e) ?s1)"
    using assms by (simp add: on_message_alt catch_processing_def)
  have st: "state_of ?s' = state_of s"
    by (simp add: s')
  have lv: "live ?s' = live s"
    by (rule ext) (simp add: live_def st)
  have "performed s ?s' =
      performed s ?s1 @
      [Console ERROR (ErrorProcessing e), Send ws (error_payload rt ''Internal server error'')]"
    by (simp add: s' dispatch_trace)
  moreover have "filter is_close_call (performed s ?s') = []"
    by (simp add: s' dispatch_trace close_calls_dispatch)
  moreover have "is_open s ws \<longrightarrow>
      last (outbox_of ?s' ws) = Text (error_payload rt ''Internal server error'')"
    by (simp add: s')
  moreover have "listeners s ws = Some user \<and> live s ws \<longrightarrow>
      (\<forall>data'. emit_message rt ws data' ?s' = on_message rt ws user data' ?s')"
    by (simp add: emit_message_live lv)
  ultimately show ?thesis using st by simp
qed

text \<open>
  C4: the second \<open>catch\<close> block does not catch every exception of the dispatch. A
  pre-hook that throws \<open>null\<close> makes it throw in turn, at the read of
  \<open>(error as Error).message\<close>: for the frame \<open>{"content":"hi"}\<close> of connection 0 the
  pre-hook is invoked, then a \<open>TypeError\<close> leaves the listener. No error is logged, and
  neither the sender nor the other connection receives anything.
\<close>

theorem thrown_null_leaves_the_listener:
  \<open>beforeSend with_null_hook = Some null_hook \<and>
   null_hook (JObj [(''content'', JStr ''hi''), (''sender'', JStr ''alice'')]) = Inl ThrownNull \<and>
   is_open with_null_hook 0 \<and>
   performed with_null_hook
     (step demo_runtime (Message 0 ''{"content":"hi"}'') with_null_hook) =
     [Invoke BeforeSend (JObj [(''content'', JStr ''hi''), (''sender'', JStr ''alice'')]),
      Uncaught TypeError] \<and>
   received with_null_hook
     (step demo_runtime (Message 0 ''{"content":"hi"}'') with_null_hook) 0 = [] \<and>
   received with_null_hook
     (step demo_runtime (Message 0 ''{"content":"hi"}'') with_null_hook) 1 = []\<close>
proof (intro conjI)
  show "beforeSend with_null_hook = Some null_hook"
    by (simp add: with_null_hook_def demo_hooks plain_config_def)
  show "null_hook (JObj [(''content'', JStr ''hi''), (''sender'', JStr ''alice'')]) = Inl ThrownNull"
    by (simp add: null_hook_def)
qed code_simp+
section \<open>The broadcast\<close>

subsection \<open>The broadcast in a reachable state\<close>

lemma open_registered:
  assumes "consistent s"
  shows "(w \<in> set (wss_clients s) \<and> is_open s w) = (w \<in> fst ` set (clients s) \<and> is_open s w)"
proof (cases "is_open s w")
  case True
  then have o: "state_of s w = Some OPEN" by (simp add: is_open_state_of)
  have "w \<in> set (wss_clients s)"
    using consistentD(3)[OF assms, of w] o by simp
  moreover have "w \<in> fst ` set (clients s)"
    using consistentD(7)[OF assms o] consistentD(5)[OF assms, of w]
    by (simp add: map_of_eq_None_fst)
  ultimately show ?thesis using True by simp
next
  case False
  then show ?thesis by simp
qed

lemma outbox_of_invoked [simp]:
  "outbox_of (snd (invoke c h m s)) = outbox_of s"
  by (simp add: invoke_def)

lemma outbox_of_broadcastMessage:
  assumes "consistent s"
  shows "outbox_of (broadcastMessage rt m s) w =
           (if w \<in> fst ` set (clients s) \<and> is_open s w
            then outbox_of s w @ [Text (JSON_stringify rt m)] else outbox_of s w)"
proof -
  have "sockets (broadcastMessage rt m s) w =
      (if w \<in> set (wss_clients s) \<and> is_open s w
       then map_option (push (Text (JSON_stringify rt m))) (sockets s w) else sockets s w)"
    using consistentD(1)[OF assms] by (rule broadcastMessage_sockets)
  then show ?thesis
    using open_registered[OF assms, of w]
    by (auto simp: outbox_of_def is_open_def split: option.splits)
qed

text \<open>
  C5: in every state the server reaches, the broadcast writes the serialized message,
  once, to each registry entry whose connection is \<open>OPEN\<close>, and leaves every other
  socket as it is: an entry that is not open is skipped and delivery goes on. No socket
  changes its state, and the registry is not changed.
\<close>

theorem broadcast_writes_to_the_open_entries:
  assumes "s = run rt evs (constructor cfg)"
  shows "sockets (broadcastMessage rt m s) w =
           (if w \<in> fst ` set (clients s) \<and> is_open s w
            then map_option (push (Text (JSON_stringify rt m))) (sockets s w)
            else sockets s w) \<and>
         clients (broadcastMessage rt m s) = clients s"
proof -
  have c: "consistent s" using assms by (simp add: consistent_reachable)
  have "sockets (broadcastMessage rt m s) w =
      (if w \<in> set (wss_clients s) \<and> is_open s w
       then map_option (push (Text (JSON_stringify rt m))) (sockets s w) else sockets s w)"
    using consistentD(1)[OF c] by (rule broadcastMessage_sockets)
  then show ?thesis using open_registered[OF c, of w] by auto
qed

theorem broadcast_writes_to_the_open_entries_witness:
  \<open>sockets (broadcastMessage demo_runtime (JObj [(''content'', JStr ''hi'')]) alice_and_guest) 1 =
     Some \<lparr>readyState = OPEN, outbox = [Text ''{"content":"hi"}'']\<rparr>\<close>
proof -
  have r: "alice_and_guest = run demo_runtime demo_events (constructor plain_config)"
    by (simp add: alice_and_guest_def demo_reachable)
  have p: "1 \<in> fst ` set (clients alice_and_guest) \<and> is_open alice_and_guest 1"
    by code_simp
  have k: "sockets alice_and_guest 1 = Some \<lparr>readyState = OPEN, outbox = []\<rparr>"
    by code_simp
  have t: \<open>JSON_stringify demo_runtime (JObj [(''content'', JStr ''hi'')]) = ''{"content":"hi"}''\<close>
    by code_simp
  have "sockets (broadcastMessage demo_runtime (JObj [(''content'', JStr ''hi'')]) alice_and_guest) 1 =
      map_option (push (Text (JSON_stringify demo_runtime (JObj [(''content'', JStr ''hi'')]))))
        (sockets alice_and_guest 1)"
    using broadcast_writes_to_the_open_entries[OF r, of "JObj [(''content'', JStr ''hi'')]" 1] p
    by (simp only: if_True simp_thms)
  then show ?thesis
    unfolding k t by (simp add: push_def)
qed

subsection \<open>The default path\<close>

lemma consistent_trace [simp]: "consistent (s\<lparr>trace := t\<rparr>) = consistent s"
  by (simp add: consistent_def live_def)

lemma default_path_outbox:
  assumes c: "consistent s"
    and d: "decode rt user data = Inr m"
    and h: "onMessage s = None"
    and b: "(case beforeSend s of None \<Rightarrow> Inr m | Some g \<Rightarrow> g m) = Inr m1"
    and p: "p \<in> fst ` set (clients s)" "is_open s p"
  shows "\<exists>rest. outbox_of (on_message rt ws user data s) p =
           outbox_of s p @ Text (JSON_stringify rt m1) # rest"
proof -
  define s1 where "s1 = (case beforeSend s of None \<Rightarrow> s
                         | Some g \<Rightarrow> s\<lparr>trace := trace s @ [Invoke BeforeSend m]\<rparr>)"
  have s1: "consistent s1" "clients s1 = clients s" "is_open s1 = is_open s"
    "outbox_of s1 = outbox_of s" "afterSend s1 = afterSend s"
    using c by (simp_all add: s1_def split: option.splits)
  define s2 where "s2 = broadcastMessage rt m1 s1"
  have o2: "outbox_of s2 p = outbox_of s p @ [Text (JSON_stringify rt m1)]"
    using outbox_of_broadcastMessage[OF s1(1), of rt m1 p] p
    by (simp add: s2_def s1)
  have open2: "is_open s2 = is_open s"
    by (rule ext) (simp add: s2_def s1)
  have disp: "dispatch rt m s =
      (case afterSend s of
         None \<Rightarrow> (None, s2)
       | Some g \<Rightarrow>
           (case g m1 of
              Inl e \<Rightarrow> (Some e, s2\<lparr>trace := trace s2 @ [Invoke AfterSend m1]\<rparr>)
            | Inr m2 \<Rightarrow> (None, s2\<lparr>trace := trace s2 @ [Invoke AfterSend m1]\<rparr>)))"
    using h b
    by (auto simp: dispatch_def invoke_def Let_def s1_def s2_def
        split: option.splits sum.splits)
  show ?thesis
    using d o2 open2
    by (auto simp: on_message_def disp split: option.splits sum.splits thrown.splits)
qed

lemma decode_object:
  "JSON_parse rt data = Inr (JObj ps) \<Longrightarrow>
   decode rt user data = Inr (JObj (assoc_set ps ''sender'' (JStr user)))"
  by (simp add: decode_def)

lemma stamped_props:
  "get_prop (JObj (assoc_set ps ''sender'' (JStr user))) ''sender'' = Some (JStr user)"
  "get_prop (JObj (assoc_set ps ''sender'' (JStr user))) ''content'' = map_of ps ''content''"
  by simp_all

text \<open>
  C1, amended: a registered connection bound to \<open>user\<close> sends a frame that decodes to
  an object; no custom handler is configured, and the pre-broadcast hook is absent or
  returns without throwing. Then every open peer of the registry receives the
  serialization of the message as the pre-hook left it. With no pre-hook that message
  has the content of the decoded one and the sender \<open>user\<close>, whatever \<open>sender\<close> the
  client sent.
\<close>

theorem default_broadcast_reaches_every_open_peer:
  assumes "s = run rt evs (constructor cfg)"
    and "map_of (clients s) ws = Some user"
    and "JSON_parse rt data = Inr (JObj ps)"
    and "onMessage s = None"
    and "(case beforeSend s of
            None \<Rightarrow> Inr (JObj (assoc_set ps ''sender'' (JStr user)))
          | Some g \<Rightarrow> g (JObj (assoc_set ps ''sender'' (JStr user)))) = Inr m1"
  shows "(\<forall>p. p \<in> fst ` set (clients s) \<and> is_open s p \<longrightarrow>
            Text (JSON_stringify rt m1) \<in> set (received s (step rt (Message ws data) s) p)) \<and>
         (beforeSend s = None \<longrightarrow>
            get_prop m1 ''sender'' = Some (JStr user) \<and>
            get_prop m1 ''content'' = map_of ps ''content'')"
proof -
  have c: "consistent s" using assms(1) by (simp add: consistent_reachable)
  let ?m = "JObj (assoc_set ps ''sender'' (JStr user))"
  have d: "decode rt user data = Inr ?m" using assms(3) by (rule decode_object)
  have st: "step rt (Message ws data) s = on_message rt ws user data s"
    using c assms(2) by (rule step_message)
  have "Text (JSON_stringify rt m1) \<in> set (received s (on_message rt ws user data s) p)"
    if pk: "p \<in> fst ` set (clients s)" "is_open s p" for p
  proof -
    obtain rest where "outbox_of (on_message rt ws user data s) p =
        outbox_of s p @ Text (JSON_stringify rt m1) # rest"
      using default_path_outbox[OF c d assms(4) assms(5) pk] by blast
    then show ?thesis by (simp add: received_def)
  qed
  moreover have "beforeSend s = None \<longrightarrow>
      get_prop m1 ''sender'' = Some (JStr user) \<and> get_prop m1 ''content'' = map_of ps ''content''"
    using assms(5) by auto
  ultimately show ?thesis by (simp add: st)
qed

theorem default_broadcast_reaches_every_open_peer_witness:
  \<open>Text ''{"sender":"alice","content":"hi"}'' \<in>
     set (received alice_and_guest
            (step demo_runtime (Message 0 ''{"sender":"forged","content":"hi"}'') alice_and_guest)
            1)\<close>
proof -
  let ?ps = "[(''sender'', JStr ''forged''), (''content'', JStr ''hi'')]"
  let ?m = "JObj [(''sender'', JStr ''alice''), (''content'', JStr ''hi'')]"
  have r: "alice_and_guest = run demo_runtime demo_events (constructor plain_config)"
    by (simp add: alice_and_guest_def demo_reachable)
  have u: "map_of (clients alice_and_guest) 0 = Some ''alice''"
    by code_simp
  have j: \<open>JSON_parse demo_runtime ''{"sender":"forged","content":"hi"}'' = Inr (JObj ?ps)\<close>
    by code_simp
  have h: "onMessage alice_and_guest = None" "beforeSend alice_and_guest = None"
    by (simp_all add: alice_and_guest_def demo_hooks plain_config_def)
  have b: "(case beforeSend alice_and_guest of
              None \<Rightarrow> Inr (JObj (assoc_set ?ps ''sender'' (JStr ''alice'')))
            | Some g \<Rightarrow> g (JObj (assoc_set ?ps ''sender'' (JStr ''alice'')))) = Inr ?m"
    by (simp add: h)
  have p: "1 \<in> fst ` set (clients alice_and_guest) \<and> is_open alice_and_guest 1"
    by code_simp
  have t: \<open>JSON_stringify demo_runtime ?m = ''{"sender":"alice","content":"hi"}''\<close>
    by code_simp
  show ?thesis
    using default_broadcast_reaches_every_open_peer[OF r u j h(1) b] p t by simp
qed

theorem broadcast_with_throwing_hook_counterexample:
  \<open>onMessage with_failing_hook = None \<and>
   clients with_failing_hook = [(0, ''alice''), (1, ''Anonymous'')] \<and>
   is_open with_failing_hook 0 \<and>
   is_open with_failing_hook 1 \<and>
   JSON_parse demo_runtime ''{"sender":"forged","content":"hi"}'' =
     Inr (JObj [(''sender'', JStr ''forged''), (''content'', JStr ''hi'')]) \<and>
   received with_failing_hook
     (step demo_runtime (Message 0 ''{"sender":"forged","content":"hi"}'') with_failing_hook) 1 = []\<close>
proof (intro conjI)
  show "onMessage with_failing_hook = None"
    by (simp add: with_failing_hook_def demo_hooks plain_config_def)
qed code_simp+

section \<open>The upgrade gate\<close>

subsection \<open>The upgrade in a running, reachable state\<close>








section \<open>Shutdown\<close>

subsection \<open>The sweep and the acceptor\<close>

lemma close_trace:
  "trace (close s) =
     trace s @
     map (\<lambda>entry. CloseCall (fst entry) (Some 1001) (Some ''Server shutting down'')) (clients s) @
     [WssClose]"
  by (simp add: close_def sweep_trace)

lemma close_sockets:
  "distinct (map fst (clients s)) \<Longrightarrow>
   sockets (close s) w =
     (if w \<in> fst ` set (clients s) \<and> is_open s w
      then map_option (closing (Close (Some 1001) (Some ''Server shutting down''))) (sockets s w)
      else sockets s w)"
  by (simp add: close_def sweep_sockets wss_close_def)

lemma close_received:
  assumes "distinct (map fst (clients s))" "w \<in> fst ` set (clients s)" "is_open s w"
  shows "received s (close s) w = [Close (Some 1001) (Some ''Server shutting down'')]"
  using assms
  by (auto simp: received_def outbox_of_def close_sockets is_open_def split: option.splits)

lemma step_stop_clients: "clients (step rt Stop s) = clients s"
  by (simp add: step_def)

text \<open>
  C9, amended: \<open>close()\<close> calls \<open>close(1001, 'Server shutting down')\<close> on every
  connection of the registry, in its order, and only then closes the acceptor. Every
  registered connection that is open receives the close frame with code 1001 and is
  closing. \<open>close()\<close> removes no entry of the registry: an entry leaves it when the
  \<open>close\<close> event of its socket is handled, and once that has happened for every
  registered connection after \<open>stop()\<close>, the registry is empty.
\<close>

theorem close_sweeps_the_registry_then_the_acceptor:
  assumes "s = run rt evs (constructor cfg)"
  shows "performed s (close s) =
           map (\<lambda>entry. CloseCall (fst entry) (Some 1001) (Some ''Server shutting down''))
             (clients s) @ [WssClose] \<and>
         (\<forall>w. w \<in> fst ` set (clients s) \<and> is_open s w \<longrightarrow>
            received s (close s) w = [Close (Some 1001) (Some ''Server shutting down'')] \<and>
            state_of (close s) w = Some CLOSING) \<and>
         clients (close s) = clients s \<and>
         (\<forall>evs'. (\<forall>w \<in> fst ` set (clients s). Closed w \<in> set evs') \<longrightarrow>
            clients (run rt (Stop # evs') s) = [])"
proof -
  have c: "consistent s" using assms by (simp add: consistent_reachable)
  have d: "distinct (map fst (clients s))" using c by (rule consistentD(2))
  have "\<forall>w. w \<in> fst ` set (clients s) \<and> is_open s w \<longrightarrow>
      received s (close s) w = [Close (Some 1001) (Some ''Server shutting down'')] \<and>
      state_of (close s) w = Some CLOSING"
    using close_received[OF d]
    by (auto simp: close_state_of to_closing_def is_open_state_of)
  moreover have "clients (run rt (Stop # evs') s) = []"
    if all: "\<forall>w \<in> fst ` set (clients s). Closed w \<in> set evs'" for evs'
  proof -
    let ?s1 = "step rt Stop s"
    have c1: "consistent ?s1" using c by (rule consistent_step)
    have r1: "wss_state ?s1 \<noteq> RUNNING"
      by (simp add: step_def tick_running)
    have "fst ` set (clients (run rt evs' ?s1)) \<subseteq>
        fst ` set (clients ?s1) - {w. Closed w \<in> set evs'}"
      using c1 r1 by (rule registry_after_shutdown)
    then have "fst ` set (clients (run rt evs' ?s1)) \<subseteq> {}"
      using all unfolding step_stop_clients by blast
    then show ?thesis by simp
  qed
  ultimately show ?thesis by (simp add: close_trace)
qed

theorem close_sweeps_the_registry_then_the_acceptor_witness:
  \<open>performed three_guests (close three_guests) =
     [CloseCall 0 (Some 1001) (Some ''Server shutting down''),
      CloseCall 1 (Some 1001) (Some ''Server shutting down''),
      CloseCall 2 (Some 1001) (Some ''Server shutting down''),
      WssClose] \<and>
   received three_guests (close three_guests) 2 =
     [Close (Some 1001) (Some ''Server shutting down'')] \<and>
   clients (run demo_runtime [Stop, Closed 2, Closed 0, Closed 1] three_guests) = []\<close>
proof -
  have r: "three_guests =
      run demo_runtime [Upgrade None, Upgrade (Some ''/''), Upgrade (Some ''/chat?room=1'')]
        (constructor plain_config)"
    by (simp add: three_guests_def)
  have k: "clients three_guests = [(0, ''Anonymous''), (1, ''Anonymous''), (2, ''Anonymous'')]"
    by code_simp
  have o: "2 \<in> fst ` set (clients three_guests) \<and> is_open three_guests 2"
    by code_simp
  have e: "\<forall>w \<in> fst ` set (clients three_guests). Closed w \<in> set [Closed 2, Closed 0, Closed 1]"
    by (simp add: k)
  note th = close_sweeps_the_registry_then_the_acceptor[OF r]
  have "performed three_guests (close three_guests) =
      map (\<lambda>entry. CloseCall (fst entry) (Some 1001) (Some ''Server shutting down''))
        (clients three_guests) @ [WssClose]"
    using th by blast
  moreover have "received three_guests (close three_guests) 2 =
      [Close (Some 1001) (Some ''Server shutting down'')]"
    using th o by blast
  moreover have "clients (run demo_runtime (Stop # [Closed 2, Closed 0, Closed 1]) three_guests) = []"
    using th e by blast
  ultimately show ?thesis by (simp add: k)
qed

theorem registry_after_stop_counterexample:
  \<open>clients three_guests = [(0, ''Anonymous''), (1, ''Anonymous''), (2, ''Anonymous'')] \<and>
   is_open three_guests 0 \<and> is_open three_guests 1 \<and> is_open three_guests 2 \<and>
   map (received three_guests (step demo_runtime Stop three_guests)) [0, 1, 2] =
     [[Close (Some 1001) (Some ''Server shutting down'')],
      [Close (Some 1001) (Some ''Server shutting down'')],
      [Close (Some 1001) (Some ''Server shutting down'')]] \<and>
   clients (step demo_runtime Stop three_guests) =
     [(0, ''Anonymous''), (1, ''Anonymous''), (2, ''Anonymous'')]\<close>
  by code_simp

section \<open>The envelope\<close>

subsection \<open>What the listener checks\<close>

lemma decode_cases:
  "decode rt user data =
     (case JSON_parse rt data of
        Inl e \<Rightarrow> Inl e
      | Inr v \<Rightarrow>
          (case v of
             JObj ps \<Rightarrow> Inr (JObj (assoc_set ps ''sender'' (JStr user)))
           | JArr xs ps \<Rightarrow> Inr (JArr xs (assoc_set ps ''sender'' (JStr user)))
           | _ \<Rightarrow> Inl TypeError))"
  by (simp add: decode_def split: sum.splits jsval.splits)

lemma invocations_dispatch_actions:
  "invocations (dispatch_actions rt m s) \<noteq> [] \<and>
   hd (invocations (dispatch_actions rt m s)) =
     Invoke (case onMessage s of
               Some h \<Rightarrow> OnMessage
             | None \<Rightarrow> (case beforeSend s of Some g \<Rightarrow> BeforeSend | None \<Rightarrow> BroadcastMessage))
       m"
  by (simp add: dispatch_actions_def invocations_after_hook split: option.splits sum.splits)

text \<open>
  C6, amended: the listener checks no shape of the envelope. A frame is rejected before
  dispatch exactly when \<open>JSON.parse\<close> throws or returns \<open>null\<close>, a boolean, a number or
  a string, on which \<open>sender\<close> cannot be assigned; then nothing is invoked. Every object
  and every array that \<open>JSON.parse\<close> returns is dispatched with its \<open>sender\<close>
  overwritten, whatever properties it has: the first invocation (handler, pre-hook or
  broadcast) gets it. Neither \<open>content\<close> nor any other property is looked at.
\<close>

theorem listener_validates_no_envelope:
  "((\<exists>e. decode rt user data = Inl e) =
      (case JSON_parse rt data of Inl e \<Rightarrow> True | Inr v \<Rightarrow> is_primitive v)) \<and>
   (\<forall>e. decode rt user data = Inl e \<longrightarrow>
      invocations (performed s (on_message rt ws user data s)) = []) \<and>
   (\<forall>ps. JSON_parse rt data = Inr (JObj ps) \<longrightarrow>
      decode rt user data = Inr (JObj (assoc_set ps ''sender'' (JStr user)))) \<and>
   (\<forall>xs ps. JSON_parse rt data = Inr (JArr xs ps) \<longrightarrow>
      decode rt user data = Inr (JArr xs (assoc_set ps ''sender'' (JStr user)))) \<and>
   (\<forall>m. decode rt user data = Inr m \<longrightarrow>
      hd (invocations (performed s (on_message rt ws user data s))) =
        Invoke (case onMessage s of
                  Some h \<Rightarrow> OnMessage
                | None \<Rightarrow> (case beforeSend s of Some g \<Rightarrow> BeforeSend | None \<Rightarrow> BroadcastMessage))
          m \<and>
      invocations (performed s (on_message rt ws user data s)) \<noteq> [])"
proof -
  have "(\<exists>e. decode rt user data = Inl e) =
      (case JSON_parse rt data of Inl e \<Rightarrow> True | Inr v \<Rightarrow> is_primitive v)"
    by (simp add: decode_cases split: sum.splits jsval.splits)
  moreover have "\<forall>e. decode rt user data = Inl e \<longrightarrow>
      invocations (performed s (on_message rt ws user data s)) = []"
    by (simp add: on_message_trace)
  moreover have "\<forall>m. decode rt user data = Inr m \<longrightarrow>
      hd (invocations (performed s (on_message rt ws user data s))) =
        Invoke (case onMessage s of
                  Some h \<Rightarrow> OnMessage
                | None \<Rightarrow> (case beforeSend s of Some g \<Rightarrow> BeforeSend | None \<Rightarrow> BroadcastMessage))
          m \<and>
      invocations (performed s (on_message rt ws user data s)) \<noteq> []"
    using invocations_dispatch_actions[of rt _ s]
    by (simp add: on_message_trace split: option.splits)
  ultimately show ?thesis by (simp add: decode_cases)
qed

theorem listener_validates_no_envelope_witness:
  \<open>decode demo_runtime ''alice'' ''{"foo":"bar"}'' =
     Inr (JObj [(''foo'', JStr ''bar''), (''sender'', JStr ''alice'')]) \<and>
   hd (invocations
         (performed alice_and_guest
            (on_message demo_runtime 0 ''alice'' ''{"foo":"bar"}'' alice_and_guest))) =
     Invoke BroadcastMessage (JObj [(''foo'', JStr ''bar''), (''sender'', JStr ''alice'')]) \<and>
   invocations
     (performed alice_and_guest
        (on_message demo_runtime 0 ''alice'' ''"not json"'' alice_and_guest)) = []\<close>
proof -
  have j: \<open>JSON_parse demo_runtime ''{"foo":"bar"}'' = Inr (JObj [(''foo'', JStr ''bar'')])\<close>
    by code_simp
  have q: \<open>decode demo_runtime ''alice'' ''"not json"'' = Inl TypeError\<close>
    by code_simp
  have h: "onMessage alice_and_guest = None" "beforeSend alice_and_guest = None"
    by (simp_all add: alice_and_guest_def demo_hooks plain_config_def)
  note th1 = listener_validates_no_envelope[of demo_runtime "''alice''" _ alice_and_guest 0]
  have d: \<open>decode demo_runtime ''alice'' ''{"foo":"bar"}'' =
      Inr (JObj (assoc_set [(''foo'', JStr ''bar'')] ''sender'' (JStr ''alice'')))\<close>
    using th1 j by blast
  have \<open>hd (invocations
         (performed alice_and_guest
            (on_message demo_runtime 0 ''alice'' ''{"foo":"bar"}'' alice_and_guest))) =
     Invoke (case onMessage alice_and_guest of
               Some h \<Rightarrow> OnMessage
             | None \<Rightarrow> (case beforeSend alice_and_guest of
                           Some g \<Rightarrow> BeforeSend | None \<Rightarrow> BroadcastMessage))
       (JObj (assoc_set [(''foo'', JStr ''bar'')] ''sender'' (JStr ''alice'')))\<close>
    using th1 d by blast
  moreover have \<open>invocations
     (performed alice_and_guest
        (on_message demo_runtime 0 ''alice'' ''"not json"'' alice_and_guest)) = []\<close>
    using th1 q by blast
  ultimately show ?thesis using d by (simp add: h)
qed

theorem shapeless_payload_is_broadcast_counterexample:
  \<open>clients alice_and_guest = [(0, ''alice''), (1, ''Anonymous'')] \<and>
   JSON_parse demo_runtime ''{"foo":"bar"}'' = Inr (JObj [(''foo'', JStr ''bar'')]) \<and>
   trace (step demo_runtime (Message 0 ''{"foo":"bar"}'') alice_and_guest) =
     trace alice_and_guest @
     [Invoke BroadcastMessage (JObj [(''foo'', JStr ''bar''), (''sender'', JStr ''alice'')]),
      Send 0 ''{"foo":"bar","sender":"alice"}'',
      Send 1 ''{"foo":"bar","sender":"alice"}'',
      Console LOG (BroadcastedFrom (Some (JStr ''alice'')))] \<and>
   received alice_and_guest (step demo_runtime (Message 0 ''{"foo":"bar"}'') alice_and_guest) 1 =
     [Text ''{"foo":"bar","sender":"alice"}''] \<and>
   is_open (step demo_runtime (Message 0 ''{"foo":"bar"}'') alice_and_guest) 0\<close>
  by code_simp

section \<open>Tokens\<close>

subsection \<open>Signing and verifying\<close>

lemma jwt_verify_signed:
  "secret \<noteq> [] \<Longrightarrow>
   jwt_verify (Signed c (HS256 secret c)) secret t =
     (case claims_exp c of
        None \<Rightarrow> Inr c
      | Some e \<Rightarrow> if e \<le> t then Inl TokenExpiredError else Inr c)"
  by (simp add: jwt_verify_def)

lemma jwt_verify_rejects:
  "jwt_verify (Malformed x) secret t = Inl JsonWebTokenError"
  "g \<noteq> HS256 secret c \<Longrightarrow> jwt_verify (Signed c g) secret t = Inl JsonWebTokenError"
  "claims_exp (c :: claims) = Some e \<Longrightarrow> e \<le> t \<Longrightarrow>
     \<exists>err. jwt_verify (Signed c g) secret t = Inl err"
  by (simp_all add: jwt_verify_def)

lemma AuthService_secretKey: "secretKey (AuthService k x) \<noteq> []"
  by (simp add: AuthService_def or_default_def split: option.splits)

lemma verifyToken_null:
  "(AuthService_verifyToken svc tok t = ReturnedNull) =
     (\<exists>err. jwt_verify tok (secretKey svc) t = Inl err)"
  by (simp add: AuthService_verifyToken_def split: sum.splits option.splits)

text \<open>
  C8: a service whose secret is not empty and whose expiry the library reads as a time
  span issues a token for every user name \<open>u\<close>; verifying this token with the same
  service yields \<open>u\<close> at every time before the expiry \<open>e\<close> of the token, and \<open>null\<close> at
  \<open>e\<close> and after. For every token, \<open>verifyToken\<close> returns a value: it returns \<open>null\<close>
  exactly when \<open>jwt.verify\<close> throws, which it does for a token that is malformed, for a
  signature that is not the one of the claims under the secret of the service, and for
  claims whose expiry has been reached.
\<close>

theorem verifyToken_round_trip_until_expiry:
  assumes "secretKey svc \<noteq> []"
    and "timespan (tokenExpiry svc) now = Some e"
  shows "(\<exists>tok. AuthService_generateToken timespan svc u now = Inr tok \<and>
            (\<forall>t. AuthService_verifyToken svc tok t =
                   (if t < e then Username u else ReturnedNull))) \<and>
         (\<forall>tok t. (AuthService_verifyToken svc tok t = ReturnedNull) =
                   (\<exists>err. jwt_verify tok (secretKey svc) t = Inl err)) \<and>
         (\<forall>x t. AuthService_verifyToken svc (Malformed x) t = ReturnedNull) \<and>
         (\<forall>c g t. g \<noteq> HS256 (secretKey svc) c \<longrightarrow>
                   AuthService_verifyToken svc (Signed c g) t = ReturnedNull) \<and>
         (\<forall>c g t x. claims_exp c = Some x \<and> x \<le> t \<longrightarrow>
                   AuthService_verifyToken svc (Signed c g) t = ReturnedNull)"
proof (intro conjI allI impI)
  let ?c = "\<lparr>claims_username = Some u, claims_iat = now, claims_exp = Some e\<rparr>"
  have gen: "AuthService_generateToken timespan svc u now =
      Inr (Signed ?c (HS256 (secretKey svc) ?c))"
    using assms by (simp add: AuthService_generateToken_def jwt_sign_def)
  have "AuthService_verifyToken svc (Signed ?c (HS256 (secretKey svc) ?c)) t =
      (if t < e then Username u else ReturnedNull)" for t
    using assms(1) by (simp add: AuthService_verifyToken_def jwt_verify_signed)
  with gen show "\<exists>tok. AuthService_generateToken timespan svc u now = Inr tok \<and>
      (\<forall>t. AuthService_verifyToken svc tok t = (if t < e then Username u else ReturnedNull))"
    by blast
next
  fix tok t
  show "(AuthService_verifyToken svc tok t = ReturnedNull) =
      (\<exists>err. jwt_verify tok (secretKey svc) t = Inl err)"
    by (rule verifyToken_null)
next
  fix x t
  show "AuthService_verifyToken svc (Malformed x) t = ReturnedNull"
    by (simp add: verifyToken_null jwt_verify_rejects(1))
next
  fix c g t
  assume "g \<noteq> HS256 (secretKey svc) c"
  then show "AuthService_verifyToken svc (Signed c g) t = ReturnedNull"
    by (simp add: verifyToken_null jwt_verify_rejects(2))
next
  fix c :: claims and g t x
  assume "claims_exp c = Some x \<and> x \<le> t"
  then show "AuthService_verifyToken svc (Signed c g) t = ReturnedNull"
    using jwt_verify_rejects(3)[of c x t g "secretKey svc"] by (simp add: verifyToken_null)
qed

theorem verifyToken_round_trip_until_expiry_witness:
  "AuthService_generateToken demo_timespan demo_service ''alice'' 1000 =
     Inr (Signed \<lparr>claims_username = Some ''alice'', claims_iat = 1000, claims_exp = Some 4600\<rparr>
            (HS256 ''s3cr3t''
               \<lparr>claims_username = Some ''alice'', claims_iat = 1000, claims_exp = Some 4600\<rparr>)) \<and>
   (\<exists>tok. AuthService_generateToken demo_timespan demo_service ''alice'' 1000 = Inr tok \<and>
      AuthService_verifyToken demo_service tok 4599 = Username ''alice'' \<and>
      AuthService_verifyToken demo_service tok 4600 = ReturnedNull) \<and>
   AuthService_verifyToken demo_service (Malformed ''abc'') 1000 = ReturnedNull \<and>
   AuthService_verifyToken demo_service
     (Signed \<lparr>claims_username = Some ''alice'', claims_iat = 1000, claims_exp = Some 4600\<rparr>
        (HS256 ''default_secret_key''
           \<lparr>claims_username = Some ''alice'', claims_iat = 1000, claims_exp = Some 4600\<rparr>))
     1000 = ReturnedNull \<and>
   AuthService_verifyToken demo_service
     (Signed \<lparr>claims_username = Some ''alice'', claims_iat = 1000, claims_exp = Some 4600\<rparr>
        (HS256 ''s3cr3t''
           \<lparr>claims_username = Some ''bob'', claims_iat = 1000, claims_exp = Some 4600\<rparr>))
     1000 = ReturnedNull"
proof -
  have k: "secretKey demo_service \<noteq> []" "secretKey demo_service = ''s3cr3t''"
    by (simp_all add: demo_service_def AuthService_def or_default_def)
  have e: "demo_timespan (tokenExpiry demo_service) 1000 = Some 4600"
    by (simp add: demo_service_def AuthService_def or_default_def demo_timespan_def)
  note th = verifyToken_round_trip_until_expiry
    [of demo_service demo_timespan 1000 4600 "''alice''", OF k(1) e]
  have a: "\<exists>tok. AuthService_generateToken demo_timespan demo_service ''alice'' 1000 = Inr tok \<and>
      (\<forall>t. AuthService_verifyToken demo_service tok t =
             (if t < 4600 then Username ''alice'' else ReturnedNull))"
    using th by blast
  then obtain tok where
    g: "AuthService_generateToken demo_timespan demo_service ''alice'' 1000 = Inr tok" and
    v: "\<And>t. AuthService_verifyToken demo_service tok t =
             (if t < 4600 then Username ''alice'' else ReturnedNull)"
    by blast
  have b: "\<exists>tok. AuthService_generateToken demo_timespan demo_service ''alice'' 1000 = Inr tok \<and>
      AuthService_verifyToken demo_service tok 4599 = Username ''alice'' \<and>
      AuthService_verifyToken demo_service tok 4600 = ReturnedNull"
    using g v[of 4599] v[of 4600] by simp
  have m: "AuthService_verifyToken demo_service (Malformed ''abc'') 1000 = ReturnedNull"
    using th by blast
  have s: "\<And>c g t. g \<noteq> HS256 (secretKey demo_service) c \<Longrightarrow>
      AuthService_verifyToken demo_service (Signed c g) t = ReturnedNull"
    using th by blast
  have s1: "AuthService_verifyToken demo_service
     (Signed \<lparr>claims_username = Some ''alice'', claims_iat = 1000, claims_exp = Some 4600\<rparr>
        (HS256 ''default_secret_key''
           \<lparr>claims_username = Some ''alice'', claims_iat = 1000, claims_exp = Some 4600\<rparr>))
     1000 = ReturnedNull"
    by (rule s) (simp add: k(2))
  have s2: "AuthService_verifyToken demo_service
     (Signed \<lparr>claims_username = Some ''alice'', claims_iat = 1000, claims_exp = Some 4600\<rparr>
        (HS256 ''s3cr3t''
           \<lparr>claims_username = Some ''bob'', claims_iat = 1000, claims_exp = Some 4600\<rparr>))
     1000 = ReturnedNull"
    by (rule s) (simp add: k(2))
  have c: "AuthService_generateToken demo_timespan demo_service ''alice'' 1000 =
     Inr (Signed \<lparr>claims_username = Some ''alice'', claims_iat = 1000, claims_exp = Some 4600\<rparr>
            (HS256 ''s3cr3t''
               \<lparr>claims_username = Some ''alice'', claims_iat = 1000, claims_exp = Some 4600\<rparr>))"
    by (simp add: AuthService_generateToken_def jwt_sign_def k(2)
        demo_service_def AuthService_def or_default_def demo_timespan_def)
  show ?thesis
    using c b m s1 s2 by blast
qed

end
